theory Spec2Isabelle
  imports Main "HOL-Library.Word"
begin

section \<open>The deque of deque.c over an explicit heap\<close>

text \<open>
  The deque of \<^verbatim>\<open>deque.c\<close> is a doubly linked list of heap nodes, reached through a
  heap-allocated header with a \<^verbatim>\<open>head\<close> and a \<^verbatim>\<open>tail\<close> pointer. The functions mutate
  the header and the nodes through pointers, so the embedding keeps an explicit store:
  a pointer is an optional address (\<open>None\<close> is \<^verbatim>\<open>NULL\<close>), and the heap records, for the
  headers and for the nodes, which addresses are live (returned by \<^verbatim>\<open>malloc\<close> and not
  yet given to \<^verbatim>\<open>free\<close>) and what the memory at every address holds. Memory keeps its
  contents when it is freed, and \<^verbatim>\<open>malloc\<close> does not initialise it.
\<close>

subsection \<open>Data\<close>

type_synonym addr = nat

type_synonym ptr = "addr option"

text \<open>\<^verbatim>\<open>typedef int deque_val_type;\<close> The values are stored and returned, never computed with: a 32-bit word, read as signed by \<open>sint\<close>.\<close>

type_synonym deque_val_type = "32 word"

record node_struct =
  "next" :: ptr
  prev :: ptr
  val :: deque_val_type

record deque_struct =
  head :: ptr
  tail :: ptr

record heap =
  deque_live :: "addr set"
  deque_mem :: "addr \<Rightarrow> deque_struct"
  node_live :: "addr set"
  node_mem :: "addr \<Rightarrow> node_struct"

subsection \<open>Programs that may stop\<close>

text \<open>
  A C function either returns a value in a new heap, or stops: \<^verbatim>\<open>assert\<close> aborts the
  process, and a read or write through \<^verbatim>\<open>NULL\<close> or through a pointer to memory that is
  not live is undefined behaviour. A stop is reported with the heap in which it
  happened, so that the writes made before it stay visible.
\<close>

datatype fault = Assertion_failed | Undefined_behaviour

type_synonym 'a prog = "heap \<Rightarrow> (fault \<times> heap) + ('a \<times> heap)"

definition return :: "'a \<Rightarrow> 'a prog" where
  "return x h = Inr (x, h)"

definition stop :: "fault \<Rightarrow> 'a prog" where
  "stop f h = Inl (f, h)"

definition bind :: "'a prog \<Rightarrow> ('a \<Rightarrow> 'b prog) \<Rightarrow> 'b prog" where
  "bind m k h = (case m h of Inl e \<Rightarrow> Inl e | Inr (x, h') \<Rightarrow> k x h')"

text \<open>\<^verbatim>\<open>assert(b)\<close> of \<^verbatim>\<open>assert.h\<close>, with assertions enabled.\<close>

definition assert :: "bool \<Rightarrow> unit prog" where
  "assert b = (if b then return () else stop Assertion_failed)"

subsection \<open>The allocator\<close>

text \<open>
  What \<^verbatim>\<open>malloc\<close> returns is the environment's choice and an argument of the model:
  \<open>None\<close> when the allocation fails, \<open>Some a\<close> when it yields the block at \<open>a\<close>,
  which becomes live. \<open>malloc_ok\<close> is what C promises of the answer: a block
  that is not live already.
\<close>

definition malloc_ok :: "heap \<Rightarrow> ptr \<Rightarrow> bool" where
  "malloc_ok h m =
     (case m of None \<Rightarrow> True | Some a \<Rightarrow> a \<notin> node_live h \<and> a \<notin> deque_live h)"

definition malloc_deque :: "ptr \<Rightarrow> ptr prog" where
  "malloc_deque m h =
     (case m of None \<Rightarrow> Inr (None, h)
      | Some a \<Rightarrow> Inr (Some a, h\<lparr>deque_live := insert a (deque_live h)\<rparr>))"

definition malloc_node :: "ptr \<Rightarrow> ptr prog" where
  "malloc_node m h =
     (case m of None \<Rightarrow> Inr (None, h)
      | Some a \<Rightarrow> Inr (Some a, h\<lparr>node_live := insert a (node_live h)\<rparr>))"

text \<open>\<^verbatim>\<open>free(NULL)\<close> does nothing; freeing a block that is not live is undefined.\<close>

definition free_deque :: "ptr \<Rightarrow> unit prog" where
  "free_deque p h =
     (case p of None \<Rightarrow> Inr ((), h)
      | Some a \<Rightarrow>
          if a \<in> deque_live h then Inr ((), h\<lparr>deque_live := deque_live h - {a}\<rparr>)
          else Inl (Undefined_behaviour, h))"

definition free_node :: "ptr \<Rightarrow> unit prog" where
  "free_node p h =
     (case p of None \<Rightarrow> Inr ((), h)
      | Some a \<Rightarrow>
          if a \<in> node_live h then Inr ((), h\<lparr>node_live := node_live h - {a}\<rparr>)
          else Inl (Undefined_behaviour, h))"

subsection \<open>Reads and writes through pointers\<close>

definition deque_read :: "ptr \<Rightarrow> deque_struct prog" where
  "deque_read p h =
     (case p of None \<Rightarrow> Inl (Undefined_behaviour, h)
      | Some a \<Rightarrow>
          if a \<in> deque_live h then Inr (deque_mem h a, h)
          else Inl (Undefined_behaviour, h))"

definition deque_write :: "ptr \<Rightarrow> (deque_struct \<Rightarrow> deque_struct) \<Rightarrow> unit prog" where
  "deque_write p f h =
     (case p of None \<Rightarrow> Inl (Undefined_behaviour, h)
      | Some a \<Rightarrow>
          if a \<in> deque_live h
          then Inr ((), h\<lparr>deque_mem := (deque_mem h)(a := f (deque_mem h a))\<rparr>)
          else Inl (Undefined_behaviour, h))"

definition node_read :: "ptr \<Rightarrow> node_struct prog" where
  "node_read p h =
     (case p of None \<Rightarrow> Inl (Undefined_behaviour, h)
      | Some a \<Rightarrow>
          if a \<in> node_live h then Inr (node_mem h a, h)
          else Inl (Undefined_behaviour, h))"

definition node_write :: "ptr \<Rightarrow> (node_struct \<Rightarrow> node_struct) \<Rightarrow> unit prog" where
  "node_write p f h =
     (case p of None \<Rightarrow> Inl (Undefined_behaviour, h)
      | Some a \<Rightarrow>
          if a \<in> node_live h
          then Inr ((), h\<lparr>node_mem := (node_mem h)(a := f (node_mem h a))\<rparr>)
          else Inl (Undefined_behaviour, h))"

text \<open>The field accesses the functions use: \<^verbatim>\<open>d->head\<close>, \<^verbatim>\<open>n->next = p\<close>, and so on.\<close>

definition get_head :: "ptr \<Rightarrow> ptr prog" where
  "get_head d = bind (deque_read d) (\<lambda>s. return (head s))"

definition get_tail :: "ptr \<Rightarrow> ptr prog" where
  "get_tail d = bind (deque_read d) (\<lambda>s. return (tail s))"

definition set_head :: "ptr \<Rightarrow> ptr \<Rightarrow> unit prog" where
  "set_head d p = deque_write d (\<lambda>s. s\<lparr>head := p\<rparr>)"

definition set_tail :: "ptr \<Rightarrow> ptr \<Rightarrow> unit prog" where
  "set_tail d p = deque_write d (\<lambda>s. s\<lparr>tail := p\<rparr>)"

definition get_next :: "ptr \<Rightarrow> ptr prog" where
  "get_next n = bind (node_read n) (\<lambda>s. return (next s))"

definition get_prev :: "ptr \<Rightarrow> ptr prog" where
  "get_prev n = bind (node_read n) (\<lambda>s. return (prev s))"

definition get_val :: "ptr \<Rightarrow> deque_val_type prog" where
  "get_val n = bind (node_read n) (\<lambda>s. return (val s))"

definition set_next :: "ptr \<Rightarrow> ptr \<Rightarrow> unit prog" where
  "set_next n p = node_write n (\<lambda>s. s\<lparr>next := p\<rparr>)"

definition set_prev :: "ptr \<Rightarrow> ptr \<Rightarrow> unit prog" where
  "set_prev n p = node_write n (\<lambda>s. s\<lparr>prev := p\<rparr>)"

definition set_val :: "ptr \<Rightarrow> deque_val_type \<Rightarrow> unit prog" where
  "set_val n v = node_write n (\<lambda>s. s\<lparr>val := v\<rparr>)"

subsection \<open>The functions of deque.c\<close>

text \<open>
  Each function follows its C body statement by statement. The first argument of
  \<open>deque_alloc\<close> and the last of the two pushes is the answer of their call of
  \<^verbatim>\<open>malloc\<close>. \<^verbatim>\<open>d->head = d->tail = p\<close> stores to \<^verbatim>\<open>tail\<close>, then to \<^verbatim>\<open>head\<close>.
\<close>

definition deque_alloc :: "ptr \<Rightarrow> ptr prog" where
  "deque_alloc m =
     bind (malloc_deque m) (\<lambda>d.
     if d \<noteq> None
     then bind (set_tail d None) (\<lambda>_. bind (set_head d None) (\<lambda>_. return d))
     else return d)"

definition deque_free :: "ptr \<Rightarrow> unit prog" where
  "deque_free d = free_deque d"

definition deque_is_empty :: "ptr \<Rightarrow> bool prog" where
  "deque_is_empty d = bind (get_head d) (\<lambda>hd. return (hd = None))"

definition deque_push_front :: "ptr \<Rightarrow> deque_val_type \<Rightarrow> ptr \<Rightarrow> unit prog" where
  "deque_push_front d v m =
     bind (malloc_node m) (\<lambda>n.
     bind (assert (n \<noteq> None)) (\<lambda>_.
     bind (set_val n v) (\<lambda>_.
     bind (get_head d) (\<lambda>hd.
     bind (set_next n hd) (\<lambda>_.
     bind (set_prev n None) (\<lambda>_.
     bind (get_tail d) (\<lambda>tl.
     if tl = None
     then bind (set_tail d n) (\<lambda>_. set_head d n)
     else bind (get_head d) (\<lambda>hd'.
          bind (set_prev hd' n) (\<lambda>_. set_head d n)))))))))"

definition deque_push_back :: "ptr \<Rightarrow> deque_val_type \<Rightarrow> ptr \<Rightarrow> unit prog" where
  "deque_push_back d v m =
     bind (malloc_node m) (\<lambda>n.
     bind (assert (n \<noteq> None)) (\<lambda>_.
     bind (set_val n v) (\<lambda>_.
     bind (get_tail d) (\<lambda>tl.
     bind (set_prev n tl) (\<lambda>_.
     bind (set_next n None) (\<lambda>_.
     bind (get_head d) (\<lambda>hd.
     if hd = None
     then bind (set_tail d n) (\<lambda>_. set_head d n)
     else bind (get_tail d) (\<lambda>tl'.
          bind (set_next tl' n) (\<lambda>_. set_tail d n)))))))))"

definition deque_pop_front :: "ptr \<Rightarrow> deque_val_type prog" where
  "deque_pop_front d =
     bind (get_head d) (\<lambda>hd.
     bind (get_val hd) (\<lambda>v.
     bind (get_head d) (\<lambda>n.
     bind (get_head d) (\<lambda>hd'.
     bind (get_tail d) (\<lambda>tl.
     bind (if hd' = tl
           then bind (set_tail d None) (\<lambda>_. set_head d None)
           else bind (get_next n) (\<lambda>nx. set_head d nx)) (\<lambda>_.
     bind (free_node n) (\<lambda>_.
     return v)))))))"

definition deque_pop_back :: "ptr \<Rightarrow> deque_val_type prog" where
  "deque_pop_back d =
     bind (get_tail d) (\<lambda>tl.
     bind (get_val tl) (\<lambda>v.
     bind (get_tail d) (\<lambda>n.
     bind (get_head d) (\<lambda>hd.
     bind (get_tail d) (\<lambda>tl'.
     bind (if hd = tl'
           then bind (set_tail d None) (\<lambda>_. set_head d None)
           else bind (get_prev n) (\<lambda>pv. set_tail d pv)) (\<lambda>_.
     bind (free_node n) (\<lambda>_.
     return v)))))))"

definition deque_peek_front :: "ptr \<Rightarrow> deque_val_type prog" where
  "deque_peek_front d = bind (get_head d) (\<lambda>hd. get_val hd)"

definition deque_peek_back :: "ptr \<Rightarrow> deque_val_type prog" where
  "deque_peek_back d = bind (get_tail d) (\<lambda>tl. get_val tl)"

subsection \<open>Calls and call sequences\<close>

text \<open>
  A client's use of one deque is a list of calls; a call of a push carries the answer
  of its \<^verbatim>\<open>malloc\<close>. \<open>call\<close> runs one call and wraps what the C function returns,
  \<open>run\<close> runs a list of calls in order and collects the returned values, stopping at
  the first call that stops.
\<close>

datatype op =
  Is_empty
| Push_front deque_val_type ptr
| Push_back deque_val_type ptr
| Pop_front
| Pop_back
| Peek_front
| Peek_back

datatype ret = Void | Bool bool | Val deque_val_type

fun call :: "ptr \<Rightarrow> op \<Rightarrow> ret prog" where
  "call d Is_empty = bind (deque_is_empty d) (\<lambda>b. return (Bool b))"
| "call d (Push_front v m) = bind (deque_push_front d v m) (\<lambda>_. return Void)"
| "call d (Push_back v m) = bind (deque_push_back d v m) (\<lambda>_. return Void)"
| "call d Pop_front = bind (deque_pop_front d) (\<lambda>v. return (Val v))"
| "call d Pop_back = bind (deque_pop_back d) (\<lambda>v. return (Val v))"
| "call d Peek_front = bind (deque_peek_front d) (\<lambda>v. return (Val v))"
| "call d Peek_back = bind (deque_peek_back d) (\<lambda>v. return (Val v))"

fun run :: "ptr \<Rightarrow> op list \<Rightarrow> ret list prog" where
  "run d [] = return []"
| "run d (c # cs) = bind (call d c) (\<lambda>r. bind (run d cs) (\<lambda>rs. return (r # rs)))"

text \<open>
  The allocator keeps its promise during a run: the answer carried by every push is
  \<open>malloc_ok\<close> in the heap in which that push is called.
\<close>

fun op_malloc_ok :: "heap \<Rightarrow> op \<Rightarrow> bool" where
  "op_malloc_ok h (Push_front v m) = malloc_ok h m"
| "op_malloc_ok h (Push_back v m) = malloc_ok h m"
| "op_malloc_ok h c = True"

fun mallocs_ok :: "ptr \<Rightarrow> op list \<Rightarrow> heap \<Rightarrow> bool" where
  "mallocs_ok d [] h = True"
| "mallocs_ok d (c # cs) h =
     (op_malloc_ok h c \<and>
      (case call d c h of Inl e \<Rightarrow> True | Inr (r, h') \<Rightarrow> mallocs_ok d cs h'))"

text \<open>No allocation of the run fails.\<close>

fun op_malloc_succeeds :: "op \<Rightarrow> bool" where
  "op_malloc_succeeds (Push_front v m) = (m \<noteq> None)"
| "op_malloc_succeeds (Push_back v m) = (m \<noteq> None)"
| "op_malloc_succeeds c = True"

definition mallocs_succeed :: "op list \<Rightarrow> bool" where
  "mallocs_succeed cs = list_all op_malloc_succeeds cs"

text \<open>
  A client that empties the deque from the front: while \<open>deque_is_empty\<close> is false,
  \<open>deque_pop_front\<close>. The fuel bounds the number of tests of the loop; \<open>None\<close> is a
  loop that has not ended when the fuel is used up.
\<close>

fun read_out :: "nat \<Rightarrow> ptr \<Rightarrow> heap \<Rightarrow> ((fault \<times> heap) + (deque_val_type list \<times> heap)) option" where
  "read_out 0 d h = None"
| "read_out (Suc k) d h =
     (case deque_is_empty d h of
        Inl e \<Rightarrow> Some (Inl e)
      | Inr (b, h1) \<Rightarrow>
          if b then Some (Inr ([], h1))
          else (case deque_pop_front d h1 of
                  Inl e \<Rightarrow> Some (Inl e)
                | Inr (v, h2) \<Rightarrow>
                    (case read_out k d h2 of
                       None \<Rightarrow> None
                     | Some (Inl e) \<Rightarrow> Some (Inl e)
                     | Some (Inr (vs, h3)) \<Rightarrow> Some (Inr (v # vs, h3)))))"

subsection \<open>The shape of the heap\<close>

text \<open>
  \<open>links h as\<close>: each node of the address list \<open>as\<close> has the following one as its
  \<^verbatim>\<open>next\<close> and is the \<^verbatim>\<open>prev\<close> of the following one. Nothing is asked of the \<^verbatim>\<open>prev\<close>
  of the first node or of the \<^verbatim>\<open>next\<close> of the last.
\<close>

fun links :: "heap \<Rightarrow> addr list \<Rightarrow> bool" where
  "links h [] = True"
| "links h [a] = True"
| "links h (a # b # as) =
     (next (node_mem h a) = Some b \<and> prev (node_mem h b) = Some a \<and> links h (b # as))"

text \<open>
  \<open>dll h d as\<close>: in heap \<open>h\<close> the header at \<open>d\<close> is live and its nodes are, from front
  to back, the live and pairwise different nodes at \<open>as\<close>.
\<close>

definition dll :: "heap \<Rightarrow> addr \<Rightarrow> addr list \<Rightarrow> bool" where
  "dll h d as =
     (d \<in> deque_live h \<and> distinct as \<and> set as \<subseteq> node_live h \<and>
      head (deque_mem h d) = (if as = [] then None else Some (hd as)) \<and>
      tail (deque_mem h d) = (if as = [] then None else Some (last as)) \<and>
      links h as)"

definition contents :: "heap \<Rightarrow> addr list \<Rightarrow> deque_val_type list" where
  "contents h as = map (\<lambda>a. val (node_mem h a)) as"

text \<open>
  \<open>ends_null h d\<close>: the \<^verbatim>\<open>prev\<close> of the node \<^verbatim>\<open>head\<close> points to and the \<^verbatim>\<open>next\<close> of the
  node \<^verbatim>\<open>tail\<close> points to are \<^verbatim>\<open>NULL\<close>.
\<close>

definition ends_null :: "heap \<Rightarrow> addr \<Rightarrow> bool" where
  "ends_null h d =
     ((case head (deque_mem h d) of None \<Rightarrow> True
       | Some a \<Rightarrow> prev (node_mem h a) = None) \<and>
      (case tail (deque_mem h d) of None \<Rightarrow> True
       | Some b \<Rightarrow> next (node_mem h b) = None))"

subsection \<open>The reference model\<close>

text \<open>
  The reference double-ended queue of the specification: a list with insertion and
  removal at both ends. A pop or a peek of the empty list has no result. The model
  has no allocator and ignores the answer a push carries.
\<close>

fun ref_call :: "op \<Rightarrow> deque_val_type list \<Rightarrow> (ret \<times> deque_val_type list) option" where
  "ref_call Is_empty xs = Some (Bool (xs = []), xs)"
| "ref_call (Push_front v m) xs = Some (Void, v # xs)"
| "ref_call (Push_back v m) xs = Some (Void, xs @ [v])"
| "ref_call Pop_front xs = (case xs of [] \<Rightarrow> None | x # ys \<Rightarrow> Some (Val x, ys))"
| "ref_call Pop_back xs = (if xs = [] then None else Some (Val (last xs), butlast xs))"
| "ref_call Peek_front xs = (case xs of [] \<Rightarrow> None | x # ys \<Rightarrow> Some (Val x, xs))"
| "ref_call Peek_back xs = (if xs = [] then None else Some (Val (last xs), xs))"

fun ref_run :: "op list \<Rightarrow> deque_val_type list \<Rightarrow> (ret list \<times> deque_val_type list) option" where
  "ref_run [] xs = Some ([], xs)"
| "ref_run (c # cs) xs =
     (case ref_call c xs of
        None \<Rightarrow> None
      | Some (r, ys) \<Rightarrow>
          (case ref_run cs ys of None \<Rightarrow> None | Some (rs, zs) \<Rightarrow> Some (r # rs, zs)))"

subsection \<open>A concrete heap\<close>

text \<open>A heap in which nothing is live, for running the functions on concrete inputs.\<close>

definition heap0 :: heap where
  "heap0 =
     \<lparr>deque_live = {}, deque_mem = (\<lambda>a. \<lparr>head = None, tail = None\<rparr>),
      node_live = {}, node_mem = (\<lambda>a. \<lparr>next = None, prev = None, val = 0\<rparr>)\<rparr>"

text \<open>The heap \<open>deque_alloc\<close> makes of it when \<^verbatim>\<open>malloc\<close> answers with address 0.\<close>

definition heap1 :: heap where
  "heap1 =
     \<lparr>deque_live = {0}, deque_mem = (\<lambda>a. \<lparr>head = None, tail = None\<rparr>),
      node_live = {}, node_mem = (\<lambda>a. \<lparr>next = None, prev = None, val = 0\<rparr>)\<rparr>"

section \<open>Effects of the functions\<close>

text \<open>The primitive steps, for unfolding a function into its reads and writes.\<close>

lemmas prims = return_def stop_def bind_def assert_def malloc_deque_def malloc_node_def free_deque_def free_node_def
  deque_read_def deque_write_def node_read_def node_write_def get_head_def get_tail_def set_head_def set_tail_def
  get_next_def get_prev_def get_val_def set_next_def set_prev_def set_val_def

subsection \<open>Links\<close>

lemma links_append:
  "links h (xs @ ys) =
     (links h xs \<and> links h ys \<and>
      (xs \<noteq> [] \<and> ys \<noteq> [] \<longrightarrow>
         next (node_mem h (last xs)) = Some (hd ys) \<and> prev (node_mem h (hd ys)) = Some (last xs)))"
proof (induction h xs rule: links.induct)
  case (1 h)
  then show ?case by simp
next
  case (2 h a)
  then show ?case by (cases ys) auto
next
  case (3 h a b as)
  then show ?case by auto
qed

lemma links_cong:
  "\<forall>x\<in>set (butlast as). next (node_mem h' x) = next (node_mem h x) \<Longrightarrow>
   \<forall>x\<in>set (tl as). prev (node_mem h' x) = prev (node_mem h x) \<Longrightarrow>
   links h' as = links h as"
proof (induction h as rule: links.induct)
  case (3 h a b as)
  then show ?case by auto
qed simp_all

lemma links_tl: "links h (a # as) \<Longrightarrow> links h as"
  by (cases as) auto

subsection \<open>What each function does to a header with known fields\<close>

lemma push_front_nil_eq:
  assumes "d \<in> deque_live h" "tail (deque_mem h d) = None"
  shows "deque_push_front (Some d) v (Some a) h =
    Inr ((), h\<lparr>node_live := insert a (node_live h),
               node_mem := (node_mem h)(a := node_mem h a\<lparr>val := v, next := head (deque_mem h d), prev := None\<rparr>),
               deque_mem := (deque_mem h)(d := deque_mem h d\<lparr>tail := Some a, head := Some a\<rparr>)\<rparr>)"
  using assms by (simp add: deque_push_front_def prims)

lemma push_front_cons_eq:
  assumes "d \<in> deque_live h" "head (deque_mem h d) = Some b" "tail (deque_mem h d) = Some c"
    "b \<in> node_live h" "a \<noteq> b"
  shows "deque_push_front (Some d) v (Some a) h =
    Inr ((), h\<lparr>node_live := insert a (node_live h),
               node_mem := (node_mem h)(a := node_mem h a\<lparr>val := v, next := Some b, prev := None\<rparr>,
                                        b := node_mem h b\<lparr>prev := Some a\<rparr>),
               deque_mem := (deque_mem h)(d := deque_mem h d\<lparr>head := Some a\<rparr>)\<rparr>)"
  using assms by (simp add: deque_push_front_def prims)

lemma push_back_nil_eq:
  assumes "d \<in> deque_live h" "head (deque_mem h d) = None"
  shows "deque_push_back (Some d) v (Some a) h =
    Inr ((), h\<lparr>node_live := insert a (node_live h),
               node_mem := (node_mem h)(a := node_mem h a\<lparr>val := v, prev := tail (deque_mem h d), next := None\<rparr>),
               deque_mem := (deque_mem h)(d := deque_mem h d\<lparr>tail := Some a, head := Some a\<rparr>)\<rparr>)"
  using assms by (simp add: deque_push_back_def prims)

lemma push_back_cons_eq:
  assumes "d \<in> deque_live h" "head (deque_mem h d) = Some b" "tail (deque_mem h d) = Some c"
    "c \<in> node_live h" "a \<noteq> c"
  shows "deque_push_back (Some d) v (Some a) h =
    Inr ((), h\<lparr>node_live := insert a (node_live h),
               node_mem := (node_mem h)(a := node_mem h a\<lparr>val := v, prev := Some c, next := None\<rparr>,
                                        c := node_mem h c\<lparr>next := Some a\<rparr>),
               deque_mem := (deque_mem h)(d := deque_mem h d\<lparr>tail := Some a\<rparr>)\<rparr>)"
  using assms by (simp add: deque_push_back_def prims)

lemma push_front_fail_eq: "deque_push_front d v None h = Inl (Assertion_failed, h)"
  by (simp add: deque_push_front_def prims)

lemma push_back_fail_eq: "deque_push_back d v None h = Inl (Assertion_failed, h)"
  by (simp add: deque_push_back_def prims)

lemma pop_front_single_eq:
  assumes "d \<in> deque_live h" "head (deque_mem h d) = Some a" "tail (deque_mem h d) = Some a"
    "a \<in> node_live h"
  shows "deque_pop_front (Some d) h =
    Inr (val (node_mem h a),
         h\<lparr>deque_mem := (deque_mem h)(d := deque_mem h d\<lparr>tail := None, head := None\<rparr>),
           node_live := node_live h - {a}\<rparr>)"
  using assms by (simp add: deque_pop_front_def prims)

lemma pop_front_many_eq:
  assumes "d \<in> deque_live h" "head (deque_mem h d) = Some a" "tail (deque_mem h d) = Some c"
    "a \<in> node_live h" "a \<noteq> c"
  shows "deque_pop_front (Some d) h =
    Inr (val (node_mem h a),
         h\<lparr>deque_mem := (deque_mem h)(d := deque_mem h d\<lparr>head := next (node_mem h a)\<rparr>),
           node_live := node_live h - {a}\<rparr>)"
  using assms by (simp add: deque_pop_front_def prims)

lemma pop_back_single_eq:
  assumes "d \<in> deque_live h" "head (deque_mem h d) = Some a" "tail (deque_mem h d) = Some a"
    "a \<in> node_live h"
  shows "deque_pop_back (Some d) h =
    Inr (val (node_mem h a),
         h\<lparr>deque_mem := (deque_mem h)(d := deque_mem h d\<lparr>tail := None, head := None\<rparr>),
           node_live := node_live h - {a}\<rparr>)"
  using assms by (simp add: deque_pop_back_def prims)

lemma pop_back_many_eq:
  assumes "d \<in> deque_live h" "head (deque_mem h d) = Some b" "tail (deque_mem h d) = Some a"
    "a \<in> node_live h" "b \<noteq> a"
  shows "deque_pop_back (Some d) h =
    Inr (val (node_mem h a),
         h\<lparr>deque_mem := (deque_mem h)(d := deque_mem h d\<lparr>tail := prev (node_mem h a)\<rparr>),
           node_live := node_live h - {a}\<rparr>)"
  using assms by (simp add: deque_pop_back_def prims)

lemma pop_front_empty_eq:
  assumes "d \<in> deque_live h" "head (deque_mem h d) = None"
  shows "deque_pop_front (Some d) h = Inl (Undefined_behaviour, h)"
  using assms by (simp add: deque_pop_front_def prims)

lemma pop_back_empty_eq:
  assumes "d \<in> deque_live h" "tail (deque_mem h d) = None"
  shows "deque_pop_back (Some d) h = Inl (Undefined_behaviour, h)"
  using assms by (simp add: deque_pop_back_def prims)

lemma peek_front_empty_eq:
  assumes "d \<in> deque_live h" "head (deque_mem h d) = None"
  shows "deque_peek_front (Some d) h = Inl (Undefined_behaviour, h)"
  using assms by (simp add: deque_peek_front_def prims)

lemma peek_back_empty_eq:
  assumes "d \<in> deque_live h" "tail (deque_mem h d) = None"
  shows "deque_peek_back (Some d) h = Inl (Undefined_behaviour, h)"
  using assms by (simp add: deque_peek_back_def prims)

lemma peek_front_eq:
  assumes "d \<in> deque_live h" "head (deque_mem h d) = Some a" "a \<in> node_live h"
  shows "deque_peek_front (Some d) h = Inr (val (node_mem h a), h)"
  using assms by (simp add: deque_peek_front_def prims)

lemma peek_back_eq:
  assumes "d \<in> deque_live h" "tail (deque_mem h d) = Some a" "a \<in> node_live h"
  shows "deque_peek_back (Some d) h = Inr (val (node_mem h a), h)"
  using assms by (simp add: deque_peek_back_def prims)

lemma is_empty_eq:
  assumes "d \<in> deque_live h"
  shows "deque_is_empty (Some d) h = Inr (head (deque_mem h d) = None, h)"
  using assms by (simp add: deque_is_empty_def prims)

lemma deque_alloc_eq:
  "deque_alloc (Some d) h =
     Inr (Some d, h\<lparr>deque_live := insert d (deque_live h),
                    deque_mem := (deque_mem h)(d := deque_mem h d\<lparr>tail := None, head := None\<rparr>)\<rparr>)"
  by (simp add: deque_alloc_def prims)

lemma deque_alloc_fail_eq: "deque_alloc None h = Inr (None, h)"
  by (simp add: deque_alloc_def prims)

subsection \<open>What each function does to a well-formed deque\<close>

lemma dll_header:
  assumes "dll h d as" "as \<noteq> []"
  shows "d \<in> deque_live h" "head (deque_mem h d) = Some (hd as)" "tail (deque_mem h d) = Some (last as)"
    "hd as \<in> node_live h" "last as \<in> node_live h"
  using assms by (auto simp: dll_def)

lemma dll_nil_header:
  assumes "dll h d []"
  shows "d \<in> deque_live h" "head (deque_mem h d) = None" "tail (deque_mem h d) = None"
  using assms by (auto simp: dll_def)

lemma distinct_tl_hd: "distinct as \<Longrightarrow> x \<in> set (tl as) \<Longrightarrow> x \<noteq> hd as"
  by (cases as) auto

lemma distinct_butlast_last: "distinct as \<Longrightarrow> x \<in> set (butlast as) \<Longrightarrow> x \<noteq> last as"
  by (cases as rule: rev_cases) auto

lemma push_front_dll:
  assumes D: "dll h d as" and a: "a \<notin> node_live h"
  shows "\<exists>h'. deque_push_front (Some d) v (Some a) h = Inr ((), h') \<and> dll h' d (a # as) \<and>
     contents h' (a # as) = v # contents h as"
proof (cases "as = []")
  case True
  with D a show ?thesis
    by (simp add: push_front_nil_eq dll_nil_header) (simp add: dll_def contents_def)
next
  case False
  note hdr = dll_header[OF D False]
  from D have as: "distinct as" "set as \<subseteq> node_live h" "links h as"
    by (simp_all add: dll_def)
  from as a have notin: "a \<notin> set as" by auto
  with False have ab: "a \<noteq> hd as" by (cases as) auto
  define h' where "h' = h\<lparr>node_live := insert a (node_live h),
               node_mem := (node_mem h)(a := node_mem h a\<lparr>val := v, next := Some (hd as), prev := None\<rparr>,
                                        hd as := node_mem h (hd as)\<lparr>prev := Some a\<rparr>),
               deque_mem := (deque_mem h)(d := deque_mem h d\<lparr>head := Some a\<rparr>)\<rparr>"
  have r: "deque_push_front (Some d) v (Some a) h = Inr ((), h')"
    unfolding h'_def by (rule push_front_cons_eq[OF hdr(1,2,3,4) ab])
  have l: "links h' as = links h as"
  proof (rule links_cong)
    show "\<forall>x\<in>set (butlast as). next (node_mem h' x) = next (node_mem h x)"
      using notin by (auto simp: h'_def dest: in_set_butlastD)
    show "\<forall>x\<in>set (tl as). prev (node_mem h' x) = prev (node_mem h x)"
      using notin as(1) False by (auto simp: h'_def dest: distinct_tl_hd list.set_sel(2))
  qed
  have l': "links h' (a # as)"
    using False l as(3) ab by (cases as) (auto simp: h'_def)
  have "dll h' d (a # as)"
    unfolding dll_def using l' hdr as notin False by (auto simp: h'_def)
  moreover have "contents h' (a # as) = v # contents h as"
    using notin ab by (auto simp: contents_def h'_def)
  ultimately show ?thesis using r by blast
qed

lemma push_back_dll:
  assumes D: "dll h d as" and a: "a \<notin> node_live h"
  shows "\<exists>h'. deque_push_back (Some d) v (Some a) h = Inr ((), h') \<and> dll h' d (as @ [a]) \<and>
     contents h' (as @ [a]) = contents h as @ [v]"
proof (cases "as = []")
  case True
  with D a show ?thesis
    by (simp add: push_back_nil_eq dll_nil_header) (simp add: dll_def contents_def)
next
  case False
  note hdr = dll_header[OF D False]
  from D have as: "distinct as" "set as \<subseteq> node_live h" "links h as"
    by (simp_all add: dll_def)
  from as a have notin: "a \<notin> set as" by auto
  with False have ab: "a \<noteq> last as" by (cases as rule: rev_cases) auto
  define h' where "h' = h\<lparr>node_live := insert a (node_live h),
               node_mem := (node_mem h)(a := node_mem h a\<lparr>val := v, prev := Some (last as), next := None\<rparr>,
                                        last as := node_mem h (last as)\<lparr>next := Some a\<rparr>),
               deque_mem := (deque_mem h)(d := deque_mem h d\<lparr>tail := Some a\<rparr>)\<rparr>"
  have r: "deque_push_back (Some d) v (Some a) h = Inr ((), h')"
    unfolding h'_def by (rule push_back_cons_eq[OF hdr(1,2,3,5) ab])
  have l: "links h' as = links h as"
  proof (rule links_cong)
    show "\<forall>x\<in>set (butlast as). next (node_mem h' x) = next (node_mem h x)"
      using notin as(1) by (auto simp: h'_def dest: in_set_butlastD distinct_butlast_last)
    show "\<forall>x\<in>set (tl as). prev (node_mem h' x) = prev (node_mem h x)"
      using notin False by (auto simp: h'_def dest: list.set_sel(2))
  qed
  have l': "links h' (as @ [a])"
    using False l as(3) ab by (simp add: links_append) (simp add: h'_def)
  have "dll h' d (as @ [a])"
    unfolding dll_def using l' hdr as notin False by (auto simp: h'_def)
  moreover have "contents h' (as @ [a]) = contents h as @ [v]"
    using notin ab by (auto simp: contents_def h'_def)
  ultimately show ?thesis using r by blast
qed

lemma pop_front_dll:
  assumes D: "dll h d (a # as)"
  shows "\<exists>h'. deque_pop_front (Some d) h = Inr (val (node_mem h a), h') \<and> dll h' d as \<and>
     contents h' as = contents h as"
proof (cases "as = []")
  case True
  with D show ?thesis
    by (simp add: pop_front_single_eq dll_def contents_def)
next
  case False
  have hdr: "d \<in> deque_live h" "head (deque_mem h d) = Some a" "tail (deque_mem h d) = Some (last as)"
    "a \<in> node_live h"
    using D False by (auto simp: dll_def)
  from D have as: "distinct as" "set as \<subseteq> node_live h" "links h as" "a \<notin> set as"
    by (auto simp: dll_def dest: links_tl)
  from D False have nx: "next (node_mem h a) = Some (hd as)"
    by (cases as) (auto simp: dll_def)
  from as False have al: "a \<noteq> last as" by (cases as rule: rev_cases) auto
  define h' where "h' = h\<lparr>deque_mem := (deque_mem h)(d := deque_mem h d\<lparr>head := next (node_mem h a)\<rparr>),
           node_live := node_live h - {a}\<rparr>"
  have r: "deque_pop_front (Some d) h = Inr (val (node_mem h a), h')"
    unfolding h'_def by (rule pop_front_many_eq[OF hdr al])
  have l: "links h' as = links h as"
    by (rule links_cong) (simp_all add: h'_def)
  have "dll h' d as"
    unfolding dll_def using l hdr as False nx by (auto simp: h'_def)
  moreover have "contents h' as = contents h as"
    by (simp add: contents_def h'_def)
  ultimately show ?thesis using r by blast
qed

lemma pop_back_dll:
  assumes D: "dll h d (as @ [a])"
  shows "\<exists>h'. deque_pop_back (Some d) h = Inr (val (node_mem h a), h') \<and> dll h' d as \<and>
     contents h' as = contents h as"
proof (cases "as = []")
  case True
  with D show ?thesis
    by (simp add: pop_back_single_eq dll_def contents_def)
next
  case False
  have hdr: "d \<in> deque_live h" "head (deque_mem h d) = Some (hd as)" "tail (deque_mem h d) = Some a"
    "a \<in> node_live h"
    using D False by (auto simp: dll_def)
  from D have as: "distinct as" "set as \<subseteq> node_live h" "links h as" "a \<notin> set as"
    by (auto simp: dll_def links_append)
  from D False have pv: "prev (node_mem h a) = Some (last as)"
    by (auto simp: dll_def links_append)
  from as False have al: "hd as \<noteq> a" by (cases as) auto
  define h' where "h' = h\<lparr>deque_mem := (deque_mem h)(d := deque_mem h d\<lparr>tail := prev (node_mem h a)\<rparr>),
           node_live := node_live h - {a}\<rparr>"
  have r: "deque_pop_back (Some d) h = Inr (val (node_mem h a), h')"
    unfolding h'_def by (rule pop_back_many_eq[OF hdr al])
  have l: "links h' as = links h as"
    by (rule links_cong) (simp_all add: h'_def)
  have "dll h' d as"
    unfolding dll_def using l hdr as False pv by (auto simp: h'_def)
  moreover have "contents h' as = contents h as"
    by (simp add: contents_def h'_def)
  ultimately show ?thesis using r by blast
qed

lemma peek_front_dll:
  "dll h d (a # as) \<Longrightarrow> deque_peek_front (Some d) h = Inr (val (node_mem h a), h)"
  by (rule peek_front_eq) (auto simp: dll_def)

lemma peek_back_dll:
  "dll h d (as @ [a]) \<Longrightarrow> deque_peek_back (Some d) h = Inr (val (node_mem h a), h)"
  by (rule peek_back_eq) (auto simp: dll_def)

lemma is_empty_dll:
  "dll h d as \<Longrightarrow> deque_is_empty (Some d) h = Inr (as = [], h)"
  by (simp add: is_empty_eq dll_def)

lemma deque_alloc_dll:
  "\<exists>h'. deque_alloc (Some d) h = Inr (Some d, h') \<and> dll h' d []"
  by (simp add: deque_alloc_eq dll_def)

subsection \<open>Calls and runs against the reference model\<close>

lemma contents_Cons: "contents h (a # as) = val (node_mem h a) # contents h as"
  by (simp add: contents_def)

lemma contents_snoc: "contents h (as @ [a]) = contents h as @ [val (node_mem h a)]"
  by (simp add: contents_def)

lemma contents_Nil: "(contents h as = []) = (as = [])"
  by (simp add: contents_def)

lemma call_refines:
  assumes D: "dll h d as" and ok: "op_malloc_ok h c" and su: "op_malloc_succeeds c"
    and R: "ref_call c (contents h as) = Some (r, ys)"
  shows "\<exists>h' as'. call (Some d) c h = Inr (r, h') \<and> dll h' d as' \<and> contents h' as' = ys"
proof (cases c)
  case Is_empty
  with D R show ?thesis
    by (auto simp: bind_def is_empty_dll[OF D] return_def contents_Nil)
next
  case (Push_front v m)
  with su obtain a where m: "m = Some a" by auto
  with ok Push_front have "a \<notin> node_live h" by (simp add: malloc_ok_def)
  from push_front_dll[OF D this, of v] obtain h' where
    h': "deque_push_front (Some d) v (Some a) h = Inr ((), h')" "dll h' d (a # as)"
      "contents h' (a # as) = v # contents h as" by blast
  with R Push_front m show ?thesis
    by (auto simp: bind_def h'(1) return_def)
next
  case (Push_back v m)
  with su obtain a where m: "m = Some a" by auto
  with ok Push_back have "a \<notin> node_live h" by (simp add: malloc_ok_def)
  from push_back_dll[OF D this, of v] obtain h' where
    h': "deque_push_back (Some d) v (Some a) h = Inr ((), h')" "dll h' d (as @ [a])"
      "contents h' (as @ [a]) = contents h as @ [v]" by blast
  with R Push_back m show ?thesis
    by (auto simp: bind_def h'(1) return_def)
next
  case Pop_front
  with R obtain a bs where as: "as = a # bs"
    by (cases as) (auto simp: contents_def)
  from pop_front_dll[OF D[unfolded as]] obtain h' where
    h': "deque_pop_front (Some d) h = Inr (val (node_mem h a), h')" "dll h' d bs"
      "contents h' bs = contents h bs" by blast
  with R Pop_front as show ?thesis
    by (auto simp: bind_def h'(1) return_def contents_Cons)
next
  case Pop_back
  with R have "as \<noteq> []" by (auto simp: contents_def split: if_splits)
  then obtain bs a where as: "as = bs @ [a]" by (cases as rule: rev_cases) auto
  from pop_back_dll[OF D[unfolded as]] obtain h' where
    h': "deque_pop_back (Some d) h = Inr (val (node_mem h a), h')" "dll h' d bs"
      "contents h' bs = contents h bs" by blast
  with R Pop_back as show ?thesis
    by (auto simp: bind_def h'(1) return_def contents_snoc)
next
  case Peek_front
  with R obtain a bs where as: "as = a # bs"
    by (cases as) (auto simp: contents_def)
  note p = peek_front_dll[OF D[unfolded as]]
  with R Peek_front as D show ?thesis
    by (auto simp: bind_def p return_def contents_Cons)
next
  case Peek_back
  with R have "as \<noteq> []" by (auto simp: contents_def split: if_splits)
  then obtain bs a where as: "as = bs @ [a]" by (cases as rule: rev_cases) auto
  note p = peek_back_dll[OF D[unfolded as]]
  with R Peek_back as D show ?thesis
    by (auto simp: bind_def p return_def contents_snoc)
qed

lemma call_fault:
  assumes D: "dll h d as" and F: "\<not> op_malloc_succeeds c \<or> ref_call c (contents h as) = None"
  shows "\<exists>f. call (Some d) c h = Inl (f, h)"
proof (cases c)
  case Is_empty
  with F show ?thesis by simp
next
  case (Push_front v m)
  with F show ?thesis by (simp add: bind_def push_front_fail_eq)
next
  case (Push_back v m)
  with F show ?thesis by (simp add: bind_def push_back_fail_eq)
next
  case Pop_front
  with F have "as = []" by (cases as) (auto simp: contents_def)
  with D Pop_front show ?thesis
    by (simp add: bind_def pop_front_empty_eq dll_nil_header)
next
  case Pop_back
  with F have "as = []" by (auto simp: contents_def split: if_splits)
  with D Pop_back show ?thesis
    by (simp add: bind_def pop_back_empty_eq dll_nil_header)
next
  case Peek_front
  with F have "as = []" by (cases as) (auto simp: contents_def)
  with D Peek_front show ?thesis
    by (simp add: bind_def peek_front_empty_eq dll_nil_header)
next
  case Peek_back
  with F have "as = []" by (auto simp: contents_def split: if_splits)
  with D Peek_back show ?thesis
    by (simp add: bind_def peek_back_empty_eq dll_nil_header)
qed

lemma call_Inr_ref:
  assumes D: "dll h d as" and ok: "op_malloc_ok h c" and C: "call (Some d) c h = Inr (r, h')"
  shows "\<exists>as'. dll h' d as' \<and> ref_call c (contents h as) = Some (r, contents h' as')"
proof -
  have nf: "\<not> (\<not> op_malloc_succeeds c \<or> ref_call c (contents h as) = None)"
  proof
    assume "\<not> op_malloc_succeeds c \<or> ref_call c (contents h as) = None"
    from call_fault[OF D this] C show False by simp
  qed
  then obtain r' ys where su: "op_malloc_succeeds c"
    and R: "ref_call c (contents h as) = Some (r', ys)" by auto
  from call_refines[OF D ok su R] C R show ?thesis by auto
qed

lemma run_refines:
  assumes "dll h d as" "mallocs_ok (Some d) cs h" "mallocs_succeed cs"
    "ref_run cs (contents h as) = Some (rs, ys)"
  shows "\<exists>h' as'. run (Some d) cs h = Inr (rs, h') \<and> dll h' d as' \<and> contents h' as' = ys"
  using assms
proof (induction cs arbitrary: h as rs)
  case Nil
  then show ?case by (auto simp: return_def)
next
  case (Cons c cs)
  from Cons.prems(4) obtain r zs rs' where
    R: "ref_call c (contents h as) = Some (r, zs)" "ref_run cs zs = Some (rs', ys)" "rs = r # rs'"
    by (auto split: option.splits)
  from Cons.prems(2,3) have ok: "op_malloc_ok h c" "op_malloc_succeeds c" "mallocs_succeed cs"
    by (simp_all add: mallocs_succeed_def)
  from call_refines[OF Cons.prems(1) ok(1,2) R(1)] obtain h1 as1 where
    c: "call (Some d) c h = Inr (r, h1)" "dll h1 d as1" "contents h1 as1 = zs" by blast
  from Cons.prems(2) c(1) have "mallocs_ok (Some d) cs h1" by simp
  from Cons.IH[OF c(2) this ok(3), of rs'] R(2) c(3) obtain h' as' where
    "run (Some d) cs h1 = Inr (rs', h')" "dll h' d as'" "contents h' as' = ys" by auto
  with c(1) R(3) show ?case by (auto simp: bind_def return_def)
qed

lemma run_Inr_ref:
  assumes "dll h d as" "mallocs_ok (Some d) cs h" "run (Some d) cs h = Inr (rs, h')"
  shows "\<exists>as'. dll h' d as' \<and> ref_run cs (contents h as) = Some (rs, contents h' as')"
  using assms
proof (induction cs arbitrary: h as rs)
  case Nil
  then show ?case by (auto simp: return_def)
next
  case (Cons c cs)
  from Cons.prems(3) obtain r h1 rs' where
    c: "call (Some d) c h = Inr (r, h1)" "run (Some d) cs h1 = Inr (rs', h')" "rs = r # rs'"
    by (auto simp: bind_def return_def split: sum.splits)
  from Cons.prems(2) c(1) have ok: "op_malloc_ok h c" "mallocs_ok (Some d) cs h1" by simp_all
  from call_Inr_ref[OF Cons.prems(1) ok(1) c(1)] obtain as1 where
    a: "dll h1 d as1" "ref_call c (contents h as) = Some (r, contents h1 as1)" by blast
  from Cons.IH[OF a(1) ok(2) c(2)] obtain as' where
    "dll h' d as'" "ref_run cs (contents h1 as1) = Some (rs', contents h' as')" by blast
  with a(2) c(3) show ?case by auto
qed

lemma read_out_dll:
  "dll h d as \<Longrightarrow> length as < k \<Longrightarrow>
   \<exists>h'. read_out k (Some d) h = Some (Inr (contents h as, h')) \<and> dll h' d []"
proof (induction as arbitrary: h k)
  case Nil
  then obtain j where "k = Suc j" by (cases k) auto
  with Nil show ?case by (simp add: is_empty_dll contents_def)
next
  case (Cons a as)
  then obtain j where k: "k = Suc j" "length as < j" by (cases k) auto
  from pop_front_dll[OF Cons.prems(1)] obtain h1 where
    p: "deque_pop_front (Some d) h = Inr (val (node_mem h a), h1)" "dll h1 d as"
      "contents h1 as = contents h as" by blast
  from Cons.IH[OF p(2) k(2)] obtain h' where
    "read_out j (Some d) h1 = Some (Inr (contents h1 as, h'))" "dll h' d []" by blast
  with p k show ?case
    by (simp add: is_empty_dll[OF Cons.prems(1)] contents_Cons)
qed

lemma ref_run_take:
  "ref_run cs xs = Some (rs, ys) \<Longrightarrow> \<exists>zs. ref_run (take k cs) xs = Some (take k rs, zs)"
proof (induction cs arbitrary: xs rs k)
  case Nil
  then show ?case by simp
next
  case (Cons c cs)
  from Cons.prems obtain r zs rs' where
    R: "ref_call c xs = Some (r, zs)" "ref_run cs zs = Some (rs', ys)" "rs = r # rs'"
    by (auto split: option.splits)
  show ?case
  proof (cases k)
    case 0
    then show ?thesis by simp
  next
    case (Suc j)
    from Cons.IH[OF R(2), of j] obtain zs' where "ref_run (take j cs) zs = Some (take j rs', zs')"
      by blast
    with R Suc show ?thesis by simp
  qed
qed

lemma mallocs_ok_take:
  "mallocs_ok d cs h \<Longrightarrow> mallocs_ok d (take k cs) h"
proof (induction cs arbitrary: h k)
  case Nil
  then show ?case by simp
next
  case (Cons c cs)
  show ?case
  proof (cases k)
    case 0
    then show ?thesis by simp
  next
    case (Suc j)
    with Cons show ?thesis by (auto split: sum.splits)
  qed
qed

lemma mallocs_succeed_take: "mallocs_succeed cs \<Longrightarrow> mallocs_succeed (take k cs)"
  by (auto simp: mallocs_succeed_def list_all_iff dest: in_set_takeD)

lemma deque_alloc_Some:
  assumes "deque_alloc m h0 = Inr (Some d, h)"
  shows "dll h d []"
proof -
  from assms have "m = Some d"
    by (cases m) (auto simp: deque_alloc_fail_eq deque_alloc_eq)
  with assms show ?thesis by (auto simp: deque_alloc_eq dll_def)
qed

lemma run_read_out:
  assumes A: "deque_alloc m h0 = Inr (Some d, h)"
    and M: "mallocs_ok (Some d) cs h" and S: "mallocs_succeed cs"
    and R: "ref_run cs [] = Some (rs, xs)"
  shows "\<exists>h' h''. run (Some d) cs h = Inr (rs, h') \<and>
           read_out (Suc (length xs)) (Some d) h' = Some (Inr (xs, h'')) \<and>
           deque_is_empty (Some d) h'' = Inr (True, h'')"
proof -
  have D: "dll h d []" by (rule deque_alloc_Some[OF A])
  from R have R': "ref_run cs (contents h []) = Some (rs, xs)" by (simp add: contents_def)
  from run_refines[OF D M S R'] obtain h' as' where
    r: "run (Some d) cs h = Inr (rs, h')" "dll h' d as'" "contents h' as' = xs" by blast
  from r(3) have "length as' < Suc (length xs)" by (auto simp: contents_def)
  from read_out_dll[OF r(2) this] r(3) obtain h'' where
    o: "read_out (Suc (length xs)) (Some d) h' = Some (Inr (xs, h''))" "dll h'' d []" by auto
  from is_empty_dll[OF o(2)] r(1) o(1) show ?thesis by auto
qed

text \<open>The functions of the file, for running them on a concrete heap.\<close>

lemmas fns = deque_alloc_def deque_free_def deque_is_empty_def deque_push_front_def deque_push_back_def
  deque_pop_front_def deque_pop_back_def deque_peek_front_def deque_peek_back_def

subsection \<open>Reachable states, runs of pushes and pops, and the kinds of stop\<close>

lemma heap1_alloc: "deque_alloc (Some 0) heap0 = Inr (Some 0, heap1)"
  by (simp add: deque_alloc_eq heap0_def heap1_def fun_upd_idem)

lemma ref_run_append:
  "ref_run (cs @ cs') xs =
     (case ref_run cs xs of None \<Rightarrow> None
      | Some (rs, ys) \<Rightarrow>
          (case ref_run cs' ys of None \<Rightarrow> None | Some (rs', zs) \<Rightarrow> Some (rs @ rs', zs)))"
  by (induction cs arbitrary: xs) (auto split: option.splits)

lemma ref_push_backs:
  "ref_run (map (\<lambda>(v, a). Push_back v (Some a)) vas) xs =
     Some (replicate (length vas) Void, xs @ map fst vas)"
  by (induction vas arbitrary: xs) (auto split: prod.splits)

lemma ref_push_fronts:
  "ref_run (map (\<lambda>(v, a). Push_front v (Some a)) vas) xs =
     Some (replicate (length vas) Void, rev (map fst vas) @ xs)"
  by (induction vas arbitrary: xs) (auto split: prod.splits)

lemma ref_pop_fronts:
  "ref_run (replicate (length ys) Pop_front) (ys @ zs) = Some (map Val ys, zs)"
  by (induction ys) auto

lemma ref_pop_backs:
  "ref_run (replicate (length ys) Pop_back) (zs @ ys) = Some (map Val (rev ys), zs)"
proof (induction ys rule: rev_induct)
  case Nil
  then show ?case by simp
next
  case (snoc y ys)
  have "ref_run (replicate (length (ys @ [y])) Pop_back) (zs @ ys @ [y]) =
        ref_run (Pop_back # replicate (length ys) Pop_back) ((zs @ ys) @ [y])"
    by simp
  also have "\<dots> = Some (map Val (rev (ys @ [y])), zs)"
    using snoc by (simp del: append_assoc)
  finally show ?case .
qed

lemma succeed_push_backs: "mallocs_succeed (map (\<lambda>(v, a). Push_back v (Some a)) vas @ replicate n Pop_front)"
  by (auto simp: mallocs_succeed_def list_all_iff)

lemma succeed_push_fronts: "mallocs_succeed (map (\<lambda>(v, a). Push_front v (Some a)) vas @ replicate n Pop_front)"
  by (auto simp: mallocs_succeed_def list_all_iff)

lemma succeed_push_backs_pop_backs: "mallocs_succeed (map (\<lambda>(v, a). Push_back v (Some a)) vas @ replicate n Pop_back)"
  by (auto simp: mallocs_succeed_def list_all_iff)

lemma run_empty_at_end:
  assumes A: "deque_alloc m h0 = Inr (Some d, h)"
    and M: "mallocs_ok (Some d) cs h" and S: "mallocs_succeed cs"
    and R: "ref_run cs [] = Some (rs, [])"
  shows "\<exists>h'. run (Some d) cs h = Inr (rs, h') \<and> deque_is_empty (Some d) h' = Inr (True, h')"
proof -
  have D: "dll h d []" by (rule deque_alloc_Some[OF A])
  from R have R': "ref_run cs (contents h []) = Some (rs, [])" by (simp add: contents_def)
  from run_refines[OF D M S R'] obtain h' as' where
    r: "run (Some d) cs h = Inr (rs, h')" "dll h' d as'" "contents h' as' = []" by blast
  from r(3) have "as' = []" by (simp add: contents_def)
  with is_empty_dll[OF r(2)] r(1) show ?thesis by simp
qed

lemma reach_dll:
  assumes A: "deque_alloc m h0 = Inr (Some d, h)"
    and M: "mallocs_ok (Some d) cs h"
    and R: "run (Some d) cs h = Inr (rs, h')"
  shows "\<exists>as. dll h' d as \<and> ref_run cs [] = Some (rs, contents h' as)"
proof -
  have D: "dll h d []" by (rule deque_alloc_Some[OF A])
  from run_Inr_ref[OF D M R] show ?thesis by (simp add: contents_def)
qed

lemma reach_nonempty:
  assumes A: "deque_alloc m h0 = Inr (Some d, h)"
    and M: "mallocs_ok (Some d) cs h"
    and R: "run (Some d) cs h = Inr (rs, h')"
    and N: "deque_is_empty (Some d) h' = Inr (False, h')"
  shows "\<exists>as. dll h' d as \<and> as \<noteq> []"
proof -
  from reach_dll[OF A M R] obtain as where D: "dll h' d as" by blast
  from is_empty_dll[OF D] N have "as \<noteq> []" by simp
  with D show ?thesis by blast
qed

lemma call_fault_kind:
  assumes D: "dll h d as" and ok: "op_malloc_ok h c" and F: "call (Some d) c h = Inl (f, k)"
  shows "k = h \<and>
         (\<not> op_malloc_succeeds c \<and> f = Assertion_failed \<or>
          c \<in> {Pop_front, Pop_back, Peek_front, Peek_back} \<and> as = [] \<and> f = Undefined_behaviour)"
proof -
  have nf: "\<not> op_malloc_succeeds c \<or> ref_call c (contents h as) = None"
  proof (rule ccontr)
    assume "\<not> (\<not> op_malloc_succeeds c \<or> ref_call c (contents h as) = None)"
    then obtain r ys where su: "op_malloc_succeeds c"
      and R: "ref_call c (contents h as) = Some (r, ys)" by auto
    from call_refines[OF D ok su R] F show False by auto
  qed
  show ?thesis
  proof (cases c)
    case Is_empty
    with nf show ?thesis by simp
  next
    case (Push_front v m)
    with nf F show ?thesis by (simp add: bind_def push_front_fail_eq)
  next
    case (Push_back v m)
    with nf F show ?thesis by (simp add: bind_def push_back_fail_eq)
  next
    case Pop_front
    with nf have "as = []" by (cases as) (auto simp: contents_def)
    with D Pop_front F show ?thesis
      by (simp add: bind_def pop_front_empty_eq dll_nil_header)
  next
    case Pop_back
    with nf have "as = []" by (auto simp: contents_def split: if_splits)
    with D Pop_back F show ?thesis
      by (simp add: bind_def pop_back_empty_eq dll_nil_header)
  next
    case Peek_front
    with nf have "as = []" by (cases as) (auto simp: contents_def)
    with D Peek_front F show ?thesis
      by (simp add: bind_def peek_front_empty_eq dll_nil_header)
  next
    case Peek_back
    with nf have "as = []" by (auto simp: contents_def split: if_splits)
    with D Peek_back F show ?thesis
      by (simp add: bind_def peek_back_empty_eq dll_nil_header)
  qed
qed

lemma push_front_ends_null:
  assumes D: "dll h d as" and E: "ends_null h d" and a: "a \<notin> node_live h"
    and P: "deque_push_front (Some d) v (Some a) h = Inr ((), h')"
  shows "ends_null h' d"
proof (cases "as = []")
  case True
  with D have hdr: "d \<in> deque_live h" "head (deque_mem h d) = None" "tail (deque_mem h d) = None"
    by (simp_all add: dll_def)
  from P show ?thesis
    unfolding push_front_nil_eq[OF hdr(1,3)] by (auto simp: ends_null_def hdr)
next
  case False
  note hdr = dll_header[OF D False]
  from hdr a have ab: "a \<noteq> hd as" "a \<noteq> last as" by auto
  from E hdr have nx: "next (node_mem h (last as)) = None" by (simp add: ends_null_def)
  from P show ?thesis
    unfolding push_front_cons_eq[OF hdr(1,2,3,4) ab(1)] using ab nx
    by (auto simp: ends_null_def hdr)
qed

lemma push_back_ends_null:
  assumes D: "dll h d as" and E: "ends_null h d" and a: "a \<notin> node_live h"
    and P: "deque_push_back (Some d) v (Some a) h = Inr ((), h')"
  shows "ends_null h' d"
proof (cases "as = []")
  case True
  with D have hdr: "d \<in> deque_live h" "head (deque_mem h d) = None" "tail (deque_mem h d) = None"
    by (simp_all add: dll_def)
  from P show ?thesis
    unfolding push_back_nil_eq[OF hdr(1,2)] by (auto simp: ends_null_def hdr)
next
  case False
  note hdr = dll_header[OF D False]
  from hdr a have ab: "a \<noteq> hd as" "a \<noteq> last as" by auto
  from E hdr have pv: "prev (node_mem h (hd as)) = None" by (simp add: ends_null_def)
  from P show ?thesis
    unfolding push_back_cons_eq[OF hdr(1,2,3,5) ab(2)] using ab pv
    by (auto simp: ends_null_def hdr)
qed


lemma run_keeps_contents:
  assumes D: "dll h d as" and M: "mallocs_ok (Some d) cs h" and S: "mallocs_succeed cs"
    and R: "ref_run cs (contents h as) = Some (rs, contents h as)"
  shows "\<exists>k k'. run (Some d) cs h = Inr (rs, k) \<and>
           read_out (Suc (length (contents h as))) (Some d) k = Some (Inr (contents h as, k')) \<and>
           deque_is_empty (Some d) k = Inr (contents h as = [], k)"
proof -
  from run_refines[OF D M S R] obtain k as' where
    r: "run (Some d) cs h = Inr (rs, k)" "dll k d as'" "contents k as' = contents h as" by blast
  from r(3) have l: "length as' < Suc (length (contents h as))"
    by (metis length_map contents_def lessI)
  from read_out_dll[OF r(2) l] r(3) obtain k' where
    o: "read_out (Suc (length (contents h as))) (Some d) k = Some (Inr (contents h as, k'))" by auto
  from r(3) have "(as' = []) = (contents h as = [])" by (metis contents_Nil)
  with is_empty_dll[OF r(2)] have "deque_is_empty (Some d) k = Inr (contents h as = [], k)" by simp
  with r(1) o show ?thesis by blast
qed

section \<open>The claims\<close>

text \<open>
  In what follows a deque is created by \<open>deque_alloc m h0 = Inr (Some d, h)\<close>: the
  allocation succeeded and returned the header at \<open>d\<close>, in heap \<open>h\<close>. The states its
  client can reach are those of a run \<open>run (Some d) cs h = Inr (rs, h')\<close> in which the
  allocator keeps its promise, \<open>mallocs_ok (Some d) cs h\<close>.
\<close>

subsection \<open>C1: the deque refines the reference model\<close>

text \<open>
  C1. For every list of calls \<open>cs\<close> (pushes, pops, peeks and emptiness tests, in any
  order) on a freshly created deque, with every allocation successful, and with pops
  and peeks applied only to a non-empty deque (the reference model, run on the same
  calls from the empty list, has a result): after each step \<open>k\<close> the code has returned
  the values the reference model has returned, and emptying the deque by repeated
  \<open>deque_pop_front\<close> reads out the list \<open>ys\<close> the reference model holds after the
  same \<open>k\<close> calls, with enough fuel for the loop to end; the deque is then empty.
\<close>

theorem deque_refines_reference:
  assumes A: "deque_alloc m h0 = Inr (Some d, h)"
    and M: "mallocs_ok (Some d) cs h" and S: "mallocs_succeed cs"
    and R: "ref_run cs [] = Some (rs, xs)"
  shows "\<forall>k\<le>length cs. \<exists>ys h' h''.
           ref_run (take k cs) [] = Some (take k rs, ys) \<and>
           run (Some d) (take k cs) h = Inr (take k rs, h') \<and>
           read_out (Suc (length ys)) (Some d) h' = Some (Inr (ys, h'')) \<and>
           deque_is_empty (Some d) h'' = Inr (True, h'')"
proof (intro allI impI)
  fix k
  from ref_run_take[OF R, of k] obtain ys where
    Rk: "ref_run (take k cs) [] = Some (take k rs, ys)" by blast
  from run_read_out[OF A mallocs_ok_take[OF M] mallocs_succeed_take[OF S] Rk] Rk
  show "\<exists>ys h' h''.
           ref_run (take k cs) [] = Some (take k rs, ys) \<and>
           run (Some d) (take k cs) h = Inr (take k rs, h') \<and>
           read_out (Suc (length ys)) (Some d) h' = Some (Inr (ys, h'')) \<and>
           deque_is_empty (Some d) h'' = Inr (True, h'')"
    by blast
qed

theorem deque_refines_reference_witness:
  "\<exists>h' h''. deque_alloc (Some 0) heap0 = Inr (Some 0, heap1) \<and>
     mallocs_ok (Some 0)
       [Push_back 1 (Some 1), Push_front 7 (Some 2), Pop_back, Push_back 3 (Some 1), Pop_front] heap1 \<and>
     run (Some 0) [Push_back 1 (Some 1), Push_front 7 (Some 2), Pop_back, Push_back 3 (Some 1)] heap1 =
       Inr ([Void, Void, Val 1, Void], h') \<and>
     read_out 3 (Some 0) h' = Some (Inr ([7, 3], h''))"
proof -
  let ?cs = "[Push_back 1 (Some 1), Push_front 7 (Some 2), Pop_back, Push_back 3 (Some 1), Pop_front]"
  let ?cs4 = "[Push_back 1 (Some 1), Push_front 7 (Some 2), Pop_back, Push_back 3 (Some 1)]"
  let ?rs = "[Void, Void, Val 1, Void, Val 7]"
  note A = heap1_alloc
  have M: "mallocs_ok (Some 0) ?cs heap1"
    by (simp add: prims fns heap1_def malloc_ok_def)
  have S: "mallocs_succeed ?cs" by (simp add: mallocs_succeed_def)
  have R: "ref_run ?cs [] = Some (?rs, [3])" by simp
  have k: "(4::nat) \<le> length ?cs" by simp
  have tk: "take 4 ?cs = ?cs4" "take 4 ?rs = [Void, Void, Val 1, Void]" by simp_all
  from deque_refines_reference[OF A M S R, rule_format, OF k] obtain ys h' h'' where
    f: "ref_run (take 4 ?cs) [] = Some (take 4 ?rs, ys)"
       "run (Some 0) (take 4 ?cs) heap1 = Inr (take 4 ?rs, h')"
       "read_out (Suc (length ys)) (Some 0) h' = Some (Inr (ys, h''))"
    by blast
  from f(1) have ys: "ys = [7, 3]" unfolding tk by simp
  then have n: "Suc (length ys) = 3" by simp
  from A M f(2)[unfolded tk] f(3)[unfolded n, unfolded ys] show ?thesis by blast
qed

subsection \<open>C2: access to an empty deque\<close>

text \<open>
  C2 says that on an empty deque \<open>pop_front\<close>, \<open>pop_back\<close>, \<open>peek_front\<close> and
  \<open>peek_back\<close> signal an explicit, recoverable EmptyDequeAccess error. The C functions
  have no such check: \<^verbatim>\<open>d->head->val\<close> and \<^verbatim>\<open>d->tail->val\<close> are read at once. On the
  freshly created deque, which \<open>deque_is_empty\<close> reports empty, each of the four
  calls dereferences \<^verbatim>\<open>NULL\<close>: undefined behaviour, and no value returned to the caller.
\<close>

theorem empty_access_counterexample:
  "deque_alloc (Some 0) heap0 = Inr (Some 0, heap1) \<and>
   deque_is_empty (Some 0) heap1 = Inr (True, heap1) \<and>
   deque_pop_front (Some 0) heap1 = Inl (Undefined_behaviour, heap1) \<and>
   deque_pop_back (Some 0) heap1 = Inl (Undefined_behaviour, heap1) \<and>
   deque_peek_front (Some 0) heap1 = Inl (Undefined_behaviour, heap1) \<and>
   deque_peek_back (Some 0) heap1 = Inl (Undefined_behaviour, heap1)"
proof -
  have d: "0 \<in> deque_live heap1" "head (deque_mem heap1 0) = None" "tail (deque_mem heap1 0) = None"
    by (simp_all add: heap1_def)
  show ?thesis
    by (simp add: heap1_alloc is_empty_eq pop_front_empty_eq pop_back_empty_eq peek_front_empty_eq
        peek_back_empty_eq d)
qed

text \<open>
  C2, amended. In every state a client can reach in which \<open>deque_is_empty\<close> returns
  true, each of \<open>deque_pop_front\<close>, \<open>deque_pop_back\<close>, \<open>deque_peek_front\<close> and
  \<open>deque_peek_back\<close> is undefined behaviour (a read through the null \<^verbatim>\<open>head\<close> or
  \<^verbatim>\<open>tail\<close>); it stops in the heap in which it was called, with nothing written.
\<close>

theorem empty_access_undefined:
  assumes A: "deque_alloc m h0 = Inr (Some d, h)"
    and M: "mallocs_ok (Some d) cs h"
    and R: "run (Some d) cs h = Inr (rs, h')"
    and E: "deque_is_empty (Some d) h' = Inr (True, h')"
  shows "deque_pop_front (Some d) h' = Inl (Undefined_behaviour, h') \<and>
         deque_pop_back (Some d) h' = Inl (Undefined_behaviour, h') \<and>
         deque_peek_front (Some d) h' = Inl (Undefined_behaviour, h') \<and>
         deque_peek_back (Some d) h' = Inl (Undefined_behaviour, h')"
proof -
  from reach_dll[OF A M R] obtain as where D: "dll h' d as" by blast
  from is_empty_dll[OF D] E have "as = []" by simp
  with D have N: "dll h' d []" by simp
  note hdr = dll_nil_header[OF N]
  show ?thesis
    by (simp add: pop_front_empty_eq pop_back_empty_eq peek_front_empty_eq peek_back_empty_eq hdr)
qed

theorem empty_access_undefined_witness:
  "\<exists>h'. mallocs_ok (Some 0) [Push_back 1 (Some 1), Pop_front] heap1 \<and>
     run (Some 0) [Push_back 1 (Some 1), Pop_front] heap1 = Inr ([Void, Val 1], h') \<and>
     deque_is_empty (Some 0) h' = Inr (True, h') \<and>
     deque_pop_front (Some 0) h' = Inl (Undefined_behaviour, h') \<and>
     deque_peek_back (Some 0) h' = Inl (Undefined_behaviour, h')"
proof -
  let ?cs = "[Push_back 1 (Some 1), Pop_front]"
  have M: "mallocs_ok (Some 0) ?cs heap1"
    by (simp add: prims fns heap1_def malloc_ok_def)
  obtain h' where R: "run (Some 0) ?cs heap1 = Inr ([Void, Val 1], h')"
    and E: "deque_is_empty (Some 0) h' = Inr (True, h')"
    by (simp add: prims fns heap1_def)
  from empty_access_undefined[OF heap1_alloc M R E] M R E show ?thesis by blast
qed

subsection \<open>C3: the links at the two ends\<close>

text \<open>
  C3 says that in every reachable state of a non-empty deque the \<^verbatim>\<open>prev\<close> of the head
  node and the \<^verbatim>\<open>next\<close> of the tail node are \<^verbatim>\<open>NULL\<close>, and that the pops keep it so.
  The pushes set these links (\<^verbatim>\<open>n->prev = NULL\<close>, \<^verbatim>\<open>n->next = NULL\<close>; lemmas
  \<open>push_front_ends_null\<close> and \<open>push_back_ends_null\<close>), the pops do not reset them:
  after \<open>push_back 1; push_back 2; pop_front\<close> the \<^verbatim>\<open>prev\<close> of the new head still holds
  the address of the node that was freed, and after \<open>push_back 1; push_back 2; pop_back\<close>
  so does the \<^verbatim>\<open>next\<close> of the new tail. The theorem runs both on the concrete heap.
\<close>

theorem pop_leaves_stale_link:
  "(\<exists>h'. mallocs_ok (Some 0) [Push_back 1 (Some 1), Push_back 2 (Some 2), Pop_front] heap1 \<and>
      run (Some 0) [Push_back 1 (Some 1), Push_back 2 (Some 2), Pop_front] heap1 =
        Inr ([Void, Void, Val 1], h') \<and>
      head (deque_mem h' 0) = Some 2 \<and> prev (node_mem h' 2) = Some 1 \<and> 1 \<notin> node_live h' \<and>
      \<not> ends_null h' 0) \<and>
   (\<exists>h'. mallocs_ok (Some 0) [Push_back 1 (Some 1), Push_back 2 (Some 2), Pop_back] heap1 \<and>
      run (Some 0) [Push_back 1 (Some 1), Push_back 2 (Some 2), Pop_back] heap1 =
        Inr ([Void, Void, Val 2], h') \<and>
      tail (deque_mem h' 0) = Some 1 \<and> next (node_mem h' 1) = Some 2 \<and> 2 \<notin> node_live h' \<and>
      \<not> ends_null h' 0)"
  by (simp add: prims fns heap1_def malloc_ok_def ends_null_def)

subsection \<open>C4: the concrete scenario\<close>

text \<open>
  C4. On a freshly created deque, whatever fresh blocks \<^verbatim>\<open>malloc\<close> hands out:
  \<open>push_back 1; push_back 2; push_front 0\<close> leaves the sequence \<open>[0, 1, 2]\<close> (as
  repeated \<open>deque_pop_front\<close> would read it out); \<open>pop_front\<close> then returns 0 and leaves
  \<open>[1, 2]\<close>; \<open>pop_back\<close> returns 2 and leaves \<open>[1]\<close>; \<open>is_empty\<close> is false;
  \<open>pop_front\<close> returns 1; \<open>is_empty\<close> is true.
\<close>

theorem concrete_scenario:
  assumes A: "deque_alloc m h0 = Inr (Some d, h)"
    and M: "mallocs_ok (Some d)
              [Push_back 1 (Some a1), Push_back 2 (Some a2), Push_front 0 (Some a3),
               Pop_front, Pop_back, Is_empty, Pop_front, Is_empty] h"
  shows "(\<exists>h3 k3. run (Some d) [Push_back 1 (Some a1), Push_back 2 (Some a2), Push_front 0 (Some a3)] h =
                    Inr ([Void, Void, Void], h3) \<and>
                  read_out 4 (Some d) h3 = Some (Inr ([0, 1, 2], k3))) \<and>
         (\<exists>h4 k4. run (Some d) [Push_back 1 (Some a1), Push_back 2 (Some a2), Push_front 0 (Some a3),
                                Pop_front] h =
                    Inr ([Void, Void, Void, Val 0], h4) \<and>
                  read_out 3 (Some d) h4 = Some (Inr ([1, 2], k4))) \<and>
         (\<exists>h5 k5. run (Some d) [Push_back 1 (Some a1), Push_back 2 (Some a2), Push_front 0 (Some a3),
                                Pop_front, Pop_back] h =
                    Inr ([Void, Void, Void, Val 0, Val 2], h5) \<and>
                  read_out 2 (Some d) h5 = Some (Inr ([1], k5))) \<and>
         (\<exists>h8. run (Some d) [Push_back 1 (Some a1), Push_back 2 (Some a2), Push_front 0 (Some a3),
                             Pop_front, Pop_back, Is_empty, Pop_front, Is_empty] h =
                    Inr ([Void, Void, Void, Val 0, Val 2, Bool False, Val 1, Bool True], h8))"
proof -
  let ?cs = "[Push_back 1 (Some a1), Push_back 2 (Some a2), Push_front 0 (Some a3),
               Pop_front, Pop_back, Is_empty, Pop_front, Is_empty]"
  have S: "\<And>k. mallocs_succeed (take k ?cs)"
    by (rule mallocs_succeed_take) (simp add: mallocs_succeed_def)
  have t3: "take 3 ?cs = [Push_back 1 (Some a1), Push_back 2 (Some a2), Push_front 0 (Some a3)]"
    and t4: "take 4 ?cs = [Push_back 1 (Some a1), Push_back 2 (Some a2), Push_front 0 (Some a3), Pop_front]"
    and t5: "take 5 ?cs = [Push_back 1 (Some a1), Push_back 2 (Some a2), Push_front 0 (Some a3), Pop_front, Pop_back]"
    and t8: "take 8 ?cs = ?cs"
    by (simp_all add: numeral_eq_Suc)
  have R3: "ref_run (take 3 ?cs) [] = Some ([Void, Void, Void], [0, 1, 2])"
    and R4: "ref_run (take 4 ?cs) [] = Some ([Void, Void, Void, Val 0], [1, 2])"
    and R5: "ref_run (take 5 ?cs) [] = Some ([Void, Void, Void, Val 0, Val 2], [1])"
    and R8: "ref_run (take 8 ?cs) [] =
               Some ([Void, Void, Void, Val 0, Val 2, Bool False, Val 1, Bool True], [])"
    unfolding t3 t4 t5 t8 by simp_all
  have n: "Suc (length [0::32 word, 1, 2]) = 4" "Suc (length [1::32 word, 2]) = 3"
    "Suc (length [1::32 word]) = 2" by simp_all
  note r3 = run_read_out[OF A mallocs_ok_take[OF M] S R3, unfolded t3 n]
  note r4 = run_read_out[OF A mallocs_ok_take[OF M] S R4, unfolded t4 n]
  note r5 = run_read_out[OF A mallocs_ok_take[OF M] S R5, unfolded t5 n]
  note r8 = run_read_out[OF A mallocs_ok_take[OF M] S R8, unfolded t8]
  from r3 r4 r5 r8 show ?thesis by blast
qed

theorem concrete_scenario_witness:
  "mallocs_ok (Some 0)
     [Push_back 1 (Some 1), Push_back 2 (Some 2), Push_front 0 (Some 3),
      Pop_front, Pop_back, Is_empty, Pop_front, Is_empty] heap1 \<and>
   (\<exists>h8. run (Some 0) [Push_back 1 (Some 1), Push_back 2 (Some 2), Push_front 0 (Some 3),
                       Pop_front, Pop_back, Is_empty, Pop_front, Is_empty] heap1 =
            Inr ([Void, Void, Void, Val 0, Val 2, Bool False, Val 1, Bool True], h8))"
proof -
  have M: "mallocs_ok (Some 0)
     [Push_back 1 (Some 1), Push_back 2 (Some 2), Push_front 0 (Some 3),
      Pop_front, Pop_back, Is_empty, Pop_front, Is_empty] heap1"
    by (simp add: prims fns heap1_def malloc_ok_def)
  from concrete_scenario[OF heap1_alloc M] M show ?thesis by blast
qed

subsection \<open>C5: first in, first out\<close>

text \<open>
  C5. For every list of values (each with the fresh block \<^verbatim>\<open>malloc\<close> gives its node),
  pushed in order by \<open>deque_push_back\<close> on a freshly created deque, as many calls of
  \<open>deque_pop_front\<close> return the values in the order they were pushed, and leave the
  deque empty.
\<close>

theorem push_back_pop_front_fifo:
  assumes A: "deque_alloc m h0 = Inr (Some d, h)"
    and M: "mallocs_ok (Some d)
              (map (\<lambda>(v, a). Push_back v (Some a)) vas @ replicate (length vas) Pop_front) h"
  shows "\<exists>h'. run (Some d)
                (map (\<lambda>(v, a). Push_back v (Some a)) vas @ replicate (length vas) Pop_front) h =
              Inr (replicate (length vas) Void @ map Val (map fst vas), h') \<and>
            deque_is_empty (Some d) h' = Inr (True, h')"
proof -
  have "ref_run (replicate (length (map fst vas)) Pop_front) ([] @ map fst vas @ []) =
          Some (map Val (map fst vas), [])"
    using ref_pop_fronts[of "map fst vas" "[]"] by simp
  then have R: "ref_run (map (\<lambda>(v, a). Push_back v (Some a)) vas @ replicate (length vas) Pop_front) [] =
          Some (replicate (length vas) Void @ map Val (map fst vas), [])"
    by (simp add: ref_run_append ref_push_backs)
  show ?thesis by (rule run_empty_at_end[OF A M succeed_push_backs R])
qed

theorem push_back_pop_front_fifo_witness:
  "mallocs_ok (Some 0)
     (map (\<lambda>(v, a). Push_back v (Some a)) [(5, 1), (6, 2), (7, 3)] @ replicate (length [(5::32 word, 1::nat), (6, 2), (7, 3)]) Pop_front)
     heap1 \<and>
   (\<exists>h'. run (Some 0) [Push_back 5 (Some 1), Push_back 6 (Some 2), Push_back 7 (Some 3),
                       Pop_front, Pop_front, Pop_front] heap1 =
            Inr ([Void, Void, Void, Val 5, Val 6, Val 7], h'))"
proof -
  let ?vas = "[(5::32 word, 1::nat), (6, 2), (7, 3)]"
  have M: "mallocs_ok (Some 0)
     (map (\<lambda>(v, a). Push_back v (Some a)) ?vas @ replicate (length ?vas) Pop_front) heap1"
    by (simp add: prims fns heap1_def malloc_ok_def numeral_eq_Suc)
  from push_back_pop_front_fifo[OF heap1_alloc M] obtain h' where
    "run (Some 0) (map (\<lambda>(v, a). Push_back v (Some a)) ?vas @ replicate (length ?vas) Pop_front) heap1 =
       Inr (replicate (length ?vas) Void @ map Val (map fst ?vas), h')" by blast
  moreover have "map (\<lambda>(v, a). Push_back v (Some a)) ?vas @ replicate (length ?vas) Pop_front =
     [Push_back 5 (Some 1), Push_back 6 (Some 2), Push_back 7 (Some 3), Pop_front, Pop_front, Pop_front]"
    by (simp add: numeral_eq_Suc)
  moreover have "replicate (length ?vas) Void @ map Val (map fst ?vas) = [Void, Void, Void, Val 5, Val 6, Val 7]"
    by (simp add: numeral_eq_Suc)
  ultimately have "run (Some 0) [Push_back 5 (Some 1), Push_back 6 (Some 2), Push_back 7 (Some 3),
                       Pop_front, Pop_front, Pop_front] heap1 =
            Inr ([Void, Void, Void, Val 5, Val 6, Val 7], h')" by simp
  with M show ?thesis by blast
qed

subsection \<open>C6: last in, first out at one end\<close>

text \<open>
  C6. On a deque in any state a client can reach, empty or not, for every list of
  values pushed at one end (all by \<open>deque_push_front\<close>, or all by
  \<open>deque_push_back\<close>), as many pops from that same end return the values in the
  reverse of the order they were pushed; the deque then holds the sequence \<open>xs\<close> it
  held before the pushes (as repeated \<open>deque_pop_front\<close> reads it out), and is empty
  exactly if it was empty before.
\<close>

theorem one_end_lifo:
  assumes A: "deque_alloc m h0 = Inr (Some d, h)"
    and M: "mallocs_ok (Some d) cs h"
    and R: "run (Some d) cs h = Inr (rs, h')"
  shows "\<exists>xs. ref_run cs [] = Some (rs, xs) \<and>
         (mallocs_ok (Some d)
            (map (\<lambda>(v, a). Push_front v (Some a)) vas @ replicate (length vas) Pop_front) h' \<longrightarrow>
          (\<exists>k k'. run (Some d)
                  (map (\<lambda>(v, a). Push_front v (Some a)) vas @ replicate (length vas) Pop_front) h' =
                Inr (replicate (length vas) Void @ map Val (rev (map fst vas)), k) \<and>
              read_out (Suc (length xs)) (Some d) k = Some (Inr (xs, k')) \<and>
              deque_is_empty (Some d) k = Inr (xs = [], k))) \<and>
         (mallocs_ok (Some d)
            (map (\<lambda>(v, a). Push_back v (Some a)) vas @ replicate (length vas) Pop_back) h' \<longrightarrow>
          (\<exists>k k'. run (Some d)
                  (map (\<lambda>(v, a). Push_back v (Some a)) vas @ replicate (length vas) Pop_back) h' =
                Inr (replicate (length vas) Void @ map Val (rev (map fst vas)), k) \<and>
              read_out (Suc (length xs)) (Some d) k = Some (Inr (xs, k')) \<and>
              deque_is_empty (Some d) k = Inr (xs = [], k)))"
proof -
  from reach_dll[OF A M R] obtain as where
    D: "dll h' d as" and X: "ref_run cs [] = Some (rs, contents h' as)" by blast
  let ?xs = "contents h' as"
  have "ref_run (replicate (length (rev (map fst vas))) Pop_front) (rev (map fst vas) @ ?xs) =
          Some (map Val (rev (map fst vas)), ?xs)"
    by (rule ref_pop_fronts)
  then have RF: "ref_run (map (\<lambda>(v, a). Push_front v (Some a)) vas @ replicate (length vas) Pop_front) ?xs =
          Some (replicate (length vas) Void @ map Val (rev (map fst vas)), ?xs)"
    by (simp add: ref_run_append ref_push_fronts)
  have "ref_run (replicate (length (map fst vas)) Pop_back) (?xs @ map fst vas) =
          Some (map Val (rev (map fst vas)), ?xs)"
    by (rule ref_pop_backs)
  then have RB: "ref_run (map (\<lambda>(v, a). Push_back v (Some a)) vas @ replicate (length vas) Pop_back) ?xs =
          Some (replicate (length vas) Void @ map Val (rev (map fst vas)), ?xs)"
    by (simp add: ref_run_append ref_push_backs)
  show ?thesis
  proof (intro exI[of _ ?xs] conjI impI)
    show "ref_run cs [] = Some (rs, ?xs)" by (rule X)
  next
    assume M1: "mallocs_ok (Some d)
            (map (\<lambda>(v, a). Push_front v (Some a)) vas @ replicate (length vas) Pop_front) h'"
    show "\<exists>k k'. run (Some d)
                  (map (\<lambda>(v, a). Push_front v (Some a)) vas @ replicate (length vas) Pop_front) h' =
                Inr (replicate (length vas) Void @ map Val (rev (map fst vas)), k) \<and>
              read_out (Suc (length ?xs)) (Some d) k = Some (Inr (?xs, k')) \<and>
              deque_is_empty (Some d) k = Inr (?xs = [], k)"
      by (rule run_keeps_contents[OF D M1 succeed_push_fronts RF])
  next
    assume M2: "mallocs_ok (Some d)
            (map (\<lambda>(v, a). Push_back v (Some a)) vas @ replicate (length vas) Pop_back) h'"
    show "\<exists>k k'. run (Some d)
                  (map (\<lambda>(v, a). Push_back v (Some a)) vas @ replicate (length vas) Pop_back) h' =
                Inr (replicate (length vas) Void @ map Val (rev (map fst vas)), k) \<and>
              read_out (Suc (length ?xs)) (Some d) k = Some (Inr (?xs, k')) \<and>
              deque_is_empty (Some d) k = Inr (?xs = [], k)"
      by (rule run_keeps_contents[OF D M2 succeed_push_backs_pop_backs RB])
  qed
qed

theorem one_end_lifo_witness:
  "\<exists>h'. mallocs_ok (Some 0) [Push_back 9 (Some 1)] heap1 \<and>
     run (Some 0) [Push_back 9 (Some 1)] heap1 = Inr ([Void], h') \<and>
     deque_is_empty (Some 0) h' = Inr (False, h') \<and>
     (\<exists>k k'. run (Some 0) [Push_front 5 (Some 2), Push_front 6 (Some 3), Push_front 7 (Some 4),
                         Pop_front, Pop_front, Pop_front] h' =
              Inr ([Void, Void, Void, Val 7, Val 6, Val 5], k) \<and>
            read_out 2 (Some 0) k = Some (Inr ([9], k'))) \<and>
     (\<exists>k k'. run (Some 0) [Push_back 5 (Some 2), Push_back 6 (Some 3), Push_back 7 (Some 4),
                         Pop_back, Pop_back, Pop_back] h' =
              Inr ([Void, Void, Void, Val 7, Val 6, Val 5], k) \<and>
            read_out 2 (Some 0) k = Some (Inr ([9], k')))"
proof -
  let ?vas = "[(5::32 word, 2::nat), (6, 3), (7, 4)]"
  let ?cs = "[Push_back 9 (Some 1)]"
  have F: "map (\<lambda>(v, a). Push_front v (Some a)) ?vas @ replicate (length ?vas) Pop_front =
     [Push_front 5 (Some 2), Push_front 6 (Some 3), Push_front 7 (Some 4), Pop_front, Pop_front, Pop_front]"
    by (simp add: numeral_eq_Suc)
  have B: "map (\<lambda>(v, a). Push_back v (Some a)) ?vas @ replicate (length ?vas) Pop_back =
     [Push_back 5 (Some 2), Push_back 6 (Some 3), Push_back 7 (Some 4), Pop_back, Pop_back, Pop_back]"
    by (simp add: numeral_eq_Suc)
  have V: "replicate (length ?vas) Void @ map Val (rev (map fst ?vas)) = [Void, Void, Void, Val 7, Val 6, Val 5]"
    by (simp add: numeral_eq_Suc)
  have M: "mallocs_ok (Some 0) ?cs heap1"
    by (simp add: prims fns heap1_def malloc_ok_def)
  obtain h' where R: "run (Some 0) ?cs heap1 = Inr ([Void], h')"
    and N: "deque_is_empty (Some 0) h' = Inr (False, h')"
    and M1: "mallocs_ok (Some 0)
     [Push_front 5 (Some 2), Push_front 6 (Some 3), Push_front 7 (Some 4), Pop_front, Pop_front, Pop_front] h'"
    and M2: "mallocs_ok (Some 0)
     [Push_back 5 (Some 2), Push_back 6 (Some 3), Push_back 7 (Some 4), Pop_back, Pop_back, Pop_back] h'"
    by (simp add: prims fns heap1_def malloc_ok_def)
  from one_end_lifo[OF heap1_alloc M R, of ?vas, unfolded F B V] obtain xs where
    x: "ref_run ?cs [] = Some ([Void], xs)"
    and f: "\<exists>k k'. run (Some 0) [Push_front 5 (Some 2), Push_front 6 (Some 3), Push_front 7 (Some 4),
                         Pop_front, Pop_front, Pop_front] h' =
              Inr ([Void, Void, Void, Val 7, Val 6, Val 5], k) \<and>
            read_out (Suc (length xs)) (Some 0) k = Some (Inr (xs, k')) \<and>
            deque_is_empty (Some 0) k = Inr (xs = [], k)"
    and b: "\<exists>k k'. run (Some 0) [Push_back 5 (Some 2), Push_back 6 (Some 3), Push_back 7 (Some 4),
                         Pop_back, Pop_back, Pop_back] h' =
              Inr ([Void, Void, Void, Val 7, Val 6, Val 5], k) \<and>
            read_out (Suc (length xs)) (Some 0) k = Some (Inr (xs, k')) \<and>
            deque_is_empty (Some 0) k = Inr (xs = [], k)"
    using M1 M2 by blast
  from x have xs: "xs = [9]" by simp
  then have n: "Suc (length xs) = 2" by simp
  from f[unfolded n, unfolded xs] b[unfolded n, unfolded xs] M R N show ?thesis by blast
qed

subsection \<open>C7: empty means no head and no tail\<close>

text \<open>
  C7. In every state a client can reach from \<open>deque_alloc\<close>, \<^verbatim>\<open>head\<close> is \<^verbatim>\<open>NULL\<close> if and
  only if \<^verbatim>\<open>tail\<close> is; this is so exactly when the deque holds no element (the
  reference model, run on the same calls, holds the empty list); a deque of one
  element has \<^verbatim>\<open>head\<close> and \<^verbatim>\<open>tail\<close> point to the same node; and \<open>deque_is_empty\<close>
  returns whether \<^verbatim>\<open>head\<close> is \<^verbatim>\<open>NULL\<close>, leaving the heap as it is.
\<close>

theorem empty_iff_head_and_tail_absent:
  assumes A: "deque_alloc m h0 = Inr (Some d, h)"
    and M: "mallocs_ok (Some d) cs h"
    and R: "run (Some d) cs h = Inr (rs, h')"
  shows "(head (deque_mem h' d) = None \<longleftrightarrow> tail (deque_mem h' d) = None) \<and>
         (\<exists>xs. ref_run cs [] = Some (rs, xs) \<and>
               (xs = [] \<longleftrightarrow> head (deque_mem h' d) = None) \<and>
               (length xs = 1 \<longrightarrow>
                  head (deque_mem h' d) = tail (deque_mem h' d) \<and> head (deque_mem h' d) \<noteq> None)) \<and>
         deque_is_empty (Some d) h' = Inr (head (deque_mem h' d) = None, h')"
proof -
  from reach_dll[OF A M R] obtain as where
    D: "dll h' d as" and X: "ref_run cs [] = Some (rs, contents h' as)" by blast
  have 1: "head (deque_mem h' d) = None \<longleftrightarrow> tail (deque_mem h' d) = None"
    using D by (simp add: dll_def)
  have 2: "contents h' as = [] \<longleftrightarrow> head (deque_mem h' d) = None"
    using D by (simp add: dll_def contents_def)
  have 3: "length (contents h' as) = 1 \<longrightarrow>
      head (deque_mem h' d) = tail (deque_mem h' d) \<and> head (deque_mem h' d) \<noteq> None"
  proof
    assume "length (contents h' as) = 1"
    then obtain a where "as = [a]" by (cases as) (auto simp: contents_def)
    with D show "head (deque_mem h' d) = tail (deque_mem h' d) \<and> head (deque_mem h' d) \<noteq> None"
      by (simp add: dll_def)
  qed
  have 4: "deque_is_empty (Some d) h' = Inr (head (deque_mem h' d) = None, h')"
    using D by (simp add: is_empty_eq dll_def)
  have E: "\<exists>xs. ref_run cs [] = Some (rs, xs) \<and>
               (xs = [] \<longleftrightarrow> head (deque_mem h' d) = None) \<and>
               (length xs = 1 \<longrightarrow>
                  head (deque_mem h' d) = tail (deque_mem h' d) \<and> head (deque_mem h' d) \<noteq> None)"
  proof (intro exI conjI)
    show "ref_run cs [] = Some (rs, contents h' as)" by (rule X)
    show "contents h' as = [] \<longleftrightarrow> head (deque_mem h' d) = None" by (rule 2)
    show "length (contents h' as) = 1 \<longrightarrow>
      head (deque_mem h' d) = tail (deque_mem h' d) \<and> head (deque_mem h' d) \<noteq> None" by (rule 3)
  qed
  from 1 E 4 show ?thesis by (intro conjI)
qed

theorem empty_iff_head_and_tail_absent_witness:
  "\<exists>h'. mallocs_ok (Some 0) [Push_front 4 (Some 1), Push_back 5 (Some 2), Pop_front, Peek_back] heap1 \<and>
     run (Some 0) [Push_front 4 (Some 1), Push_back 5 (Some 2), Pop_front, Peek_back] heap1 =
       Inr ([Void, Void, Val 4, Val 5], h') \<and>
     head (deque_mem h' 0) = tail (deque_mem h' 0) \<and> head (deque_mem h' 0) \<noteq> None \<and>
     deque_is_empty (Some 0) h' = Inr (False, h')"
proof -
  let ?cs = "[Push_front 4 (Some 1), Push_back 5 (Some 2), Pop_front, Peek_back]"
  have M: "mallocs_ok (Some 0) ?cs heap1"
    by (simp add: prims fns heap1_def malloc_ok_def)
  obtain h' where R: "run (Some 0) ?cs heap1 = Inr ([Void, Void, Val 4, Val 5], h')"
    by (simp add: prims fns heap1_def)
  from empty_iff_head_and_tail_absent[OF heap1_alloc M R] obtain xs where
    x: "ref_run ?cs [] = Some ([Void, Void, Val 4, Val 5], xs)"
       "length xs = 1 \<longrightarrow> head (deque_mem h' 0) = tail (deque_mem h' 0) \<and> head (deque_mem h' 0) \<noteq> None"
       "deque_is_empty (Some 0) h' = Inr (head (deque_mem h' 0) = None, h')"
    by blast
  from x(1) have "length xs = 1" by auto
  with x(2) have e: "head (deque_mem h' 0) = tail (deque_mem h' 0)" "head (deque_mem h' 0) \<noteq> None"
    by blast+
  from x(3) e(2) have "deque_is_empty (Some 0) h' = Inr (False, h')" by simp
  with e M R show ?thesis by blast
qed

subsection \<open>C8: the peeks change nothing\<close>

text \<open>
  C8. In every reachable state of a non-empty deque, \<open>deque_peek_front\<close> and
  \<open>deque_peek_back\<close> return a value and the very heap they were called in (so the
  sequence, emptiness and size are what they were), and a peek called twice returns
  the same value twice.
\<close>

theorem peek_leaves_heap_unchanged:
  assumes A: "deque_alloc m h0 = Inr (Some d, h)"
    and M: "mallocs_ok (Some d) cs h"
    and R: "run (Some d) cs h = Inr (rs, h')"
    and N: "deque_is_empty (Some d) h' = Inr (False, h')"
  shows "\<exists>v w. deque_peek_front (Some d) h' = Inr (v, h') \<and>
               deque_peek_back (Some d) h' = Inr (w, h') \<and>
               bind (deque_peek_front (Some d))
                 (\<lambda>x. bind (deque_peek_front (Some d)) (\<lambda>y. return (x, y))) h' = Inr ((v, v), h') \<and>
               bind (deque_peek_back (Some d))
                 (\<lambda>x. bind (deque_peek_back (Some d)) (\<lambda>y. return (x, y))) h' = Inr ((w, w), h')"
proof -
  from reach_nonempty[OF A M R N] obtain as where D: "dll h' d as" and ne: "as \<noteq> []" by blast
  from ne obtain a bs where f: "as = a # bs" by (cases as) auto
  from ne obtain cs' c where b: "as = cs' @ [c]" by (cases as rule: rev_cases) auto
  note pf = peek_front_dll[OF D[unfolded f]]
  note pb = peek_back_dll[OF D[unfolded b]]
  show ?thesis by (simp add: bind_def return_def pf pb)
qed

theorem peek_leaves_heap_unchanged_witness:
  "\<exists>h'. mallocs_ok (Some 0) [Push_front 4 (Some 1), Push_back 5 (Some 2)] heap1 \<and>
     run (Some 0) [Push_front 4 (Some 1), Push_back 5 (Some 2)] heap1 = Inr ([Void, Void], h') \<and>
     deque_is_empty (Some 0) h' = Inr (False, h') \<and>
     deque_peek_front (Some 0) h' = Inr (4, h') \<and> deque_peek_back (Some 0) h' = Inr (5, h')"
proof -
  let ?cs = "[Push_front 4 (Some 1), Push_back 5 (Some 2)]"
  have M: "mallocs_ok (Some 0) ?cs heap1"
    by (simp add: prims fns heap1_def malloc_ok_def)
  obtain h' where R: "run (Some 0) ?cs heap1 = Inr ([Void, Void], h')"
    and N: "deque_is_empty (Some 0) h' = Inr (False, h')"
    and V: "\<exists>k. deque_peek_front (Some 0) h' = Inr (4, k)" "\<exists>k. deque_peek_back (Some 0) h' = Inr (5, k)"
    by (simp add: prims fns heap1_def)
  from peek_leaves_heap_unchanged[OF heap1_alloc M R N] V
  have "deque_peek_front (Some 0) h' = Inr (4, h') \<and> deque_peek_back (Some 0) h' = Inr (5, h')"
    by auto
  with M R N show ?thesis by blast
qed

subsection \<open>C9: a call that fails has written nothing\<close>

text \<open>
  C9. In every reachable state, a call that does not return has stopped in the very heap
  it was called in: no link or header field was written. Such a call is a push whose
  \<^verbatim>\<open>malloc\<close> failed (the assertion stops it before the first write) or a pop or peek of
  the empty deque (the first read stops it). A \<open>deque_alloc\<close> whose \<^verbatim>\<open>malloc\<close> fails
  returns \<^verbatim>\<open>NULL\<close> and leaves the heap as it is.
\<close>

theorem failure_leaves_heap_unchanged:
  assumes A: "deque_alloc m h0 = Inr (Some d, h)"
    and M: "mallocs_ok (Some d) cs h"
    and R: "run (Some d) cs h = Inr (rs, h')"
    and O: "op_malloc_ok h' c"
    and F: "call (Some d) c h' = Inl (f, k)"
  shows "k = h' \<and>
         (\<not> op_malloc_succeeds c \<and> f = Assertion_failed \<or>
          c \<in> {Pop_front, Pop_back, Peek_front, Peek_back} \<and> f = Undefined_behaviour \<and>
            deque_is_empty (Some d) h' = Inr (True, h')) \<and>
         deque_alloc None g = Inr (None, g)"
proof -
  from reach_dll[OF A M R] obtain as where D: "dll h' d as" by blast
  from call_fault_kind[OF D O F] is_empty_dll[OF D] show ?thesis
    by (auto simp: deque_alloc_fail_eq)
qed

theorem failure_leaves_heap_unchanged_witness:
  "\<exists>h'. mallocs_ok (Some 0) [Push_back 1 (Some 1), Push_front 2 (Some 2)] heap1 \<and>
     run (Some 0) [Push_back 1 (Some 1), Push_front 2 (Some 2)] heap1 = Inr ([Void, Void], h') \<and>
     op_malloc_ok h' (Push_front 3 None) \<and>
     call (Some 0) (Push_front 3 None) h' = Inl (Assertion_failed, h') \<and>
     call (Some 0) Pop_back heap1 = Inl (Undefined_behaviour, heap1)"
proof -
  let ?cs = "[Push_back 1 (Some 1), Push_front 2 (Some 2)]"
  have M: "mallocs_ok (Some 0) ?cs heap1"
    by (simp add: prims fns heap1_def malloc_ok_def)
  obtain h' where R: "run (Some 0) ?cs heap1 = Inr ([Void, Void], h')"
    by (simp add: prims fns heap1_def)
  have O: "op_malloc_ok h' (Push_front 3 None)" by (simp add: malloc_ok_def)
  obtain k where F: "call (Some 0) (Push_front 3 None) h' = Inl (Assertion_failed, k)"
    by (simp add: bind_def push_front_fail_eq)
  from failure_leaves_heap_unchanged[OF heap1_alloc M R O F] have k: "k = h'" by blast
  have M0: "mallocs_ok (Some 0) [] heap1" by simp
  have R0: "run (Some 0) [] heap1 = Inr ([], heap1)" by (simp add: return_def)
  have O0: "op_malloc_ok heap1 Pop_back" by simp
  obtain k0 where F0: "call (Some 0) Pop_back heap1 = Inl (Undefined_behaviour, k0)"
    by (simp add: prims fns heap1_def)
  from failure_leaves_heap_unchanged[OF heap1_alloc M0 R0 O0 F0] have k0: "k0 = heap1" by blast
  from M R O F[unfolded k] F0[unfolded k0] show ?thesis by blast
qed

subsection \<open>C10: a peek announces the next pop\<close>

text \<open>
  C10. In every reachable state of a non-empty deque, \<open>deque_peek_front\<close> followed at
  once by \<open>deque_pop_front\<close> returns the same value twice, and so does
  \<open>deque_peek_back\<close> followed by \<open>deque_pop_back\<close>.
\<close>

theorem peek_agrees_with_pop:
  assumes A: "deque_alloc m h0 = Inr (Some d, h)"
    and M: "mallocs_ok (Some d) cs h"
    and R: "run (Some d) cs h = Inr (rs, h')"
    and N: "deque_is_empty (Some d) h' = Inr (False, h')"
  shows "(\<exists>v k. bind (deque_peek_front (Some d))
                  (\<lambda>x. bind (deque_pop_front (Some d)) (\<lambda>y. return (x, y))) h' = Inr ((v, v), k)) \<and>
         (\<exists>w k. bind (deque_peek_back (Some d))
                  (\<lambda>x. bind (deque_pop_back (Some d)) (\<lambda>y. return (x, y))) h' = Inr ((w, w), k))"
proof -
  from reach_nonempty[OF A M R N] obtain as where D: "dll h' d as" and ne: "as \<noteq> []" by blast
  from ne obtain a bs where f: "as = a # bs" by (cases as) auto
  from ne obtain cs' c where b: "as = cs' @ [c]" by (cases as rule: rev_cases) auto
  note pf = peek_front_dll[OF D[unfolded f]]
  note pb = peek_back_dll[OF D[unfolded b]]
  from pop_front_dll[OF D[unfolded f]] obtain k1 where
    qf: "deque_pop_front (Some d) h' = Inr (val (node_mem h' a), k1)" by blast
  from pop_back_dll[OF D[unfolded b]] obtain k2 where
    qb: "deque_pop_back (Some d) h' = Inr (val (node_mem h' c), k2)" by blast
  show ?thesis by (simp add: bind_def return_def pf pb qf qb)
qed

theorem peek_agrees_with_pop_witness:
  "\<exists>h' k1 k2. mallocs_ok (Some 0) [Push_front 4 (Some 1), Push_back 5 (Some 2)] heap1 \<and>
     run (Some 0) [Push_front 4 (Some 1), Push_back 5 (Some 2)] heap1 = Inr ([Void, Void], h') \<and>
     deque_is_empty (Some 0) h' = Inr (False, h') \<and>
     bind (deque_peek_front (Some 0))
       (\<lambda>x. bind (deque_pop_front (Some 0)) (\<lambda>y. return (x, y))) h' = Inr ((4, 4), k1) \<and>
     bind (deque_peek_back (Some 0))
       (\<lambda>x. bind (deque_pop_back (Some 0)) (\<lambda>y. return (x, y))) h' = Inr ((5, 5), k2)"
proof -
  let ?cs = "[Push_front 4 (Some 1), Push_back 5 (Some 2)]"
  have M: "mallocs_ok (Some 0) ?cs heap1"
    by (simp add: prims fns heap1_def malloc_ok_def)
  obtain h' where R: "run (Some 0) ?cs heap1 = Inr ([Void, Void], h')"
    and N: "deque_is_empty (Some 0) h' = Inr (False, h')"
    and V: "\<exists>k. deque_peek_front (Some 0) h' = Inr (4, k)" "\<exists>k. deque_peek_back (Some 0) h' = Inr (5, k)"
    by (simp add: prims fns heap1_def)
  from peek_agrees_with_pop[OF heap1_alloc M R N] obtain v w k1 k2 where
    p: "bind (deque_peek_front (Some 0))
         (\<lambda>x. bind (deque_pop_front (Some 0)) (\<lambda>y. return (x, y))) h' = Inr ((v, v), k1)"
       "bind (deque_peek_back (Some 0))
         (\<lambda>x. bind (deque_pop_back (Some 0)) (\<lambda>y. return (x, y))) h' = Inr ((w, w), k2)"
    by blast
  from p(1) V(1) have "v = 4" by (auto simp: bind_def return_def split: sum.splits)
  moreover from p(2) V(2) have "w = 5" by (auto simp: bind_def return_def split: sum.splits)
  ultimately show ?thesis using M R N p by blast
qed

end
